theory Spec2Isabelle
  imports Main "HOL-Library.AList" "HOL-Library.Sublist" "HOL-Library.Multiset"
begin

section \<open>Data model of robot\_scheduler.py\<close>

text \<open>
  The three exceptions the scheduler can raise: an out-of-range index into a list or
  an empty deque (IndexError), a platform id missing from the platform dictionary
  (KeyError) and an unknown node type in \<open>action\<close> (ValueError).  An exception
  aborts the call; the model returns it as \<open>Inl\<close> and drops the state.
\<close>

datatype error = IndexError | KeyError | ValueError

text \<open>
  The two concrete subclasses of \<open>Robot\<close>; the field \<open>kind\<close> of a robot stands for
  its class, which selects \<open>action\<close> (the string \<open>robot_type\<close> is read by
  \<open>InputReader\<close> only).  The integer codes of the docstrings are enumerations: a
  robot's state is 1 (working), 2 (waiting) or 3 (moving), a platform's state is 1
  (busy) or 2 (free).
\<close>

datatype kind = Organizer | Mover

datatype robot_state = Working | Waiting | Moving

datatype platform_state = Busy | Free

record robot =
  robot_id :: int
  kind :: kind
  velocity :: int
  state :: robot_state
  path :: "int list"
  time_left :: int
  time_spend :: int

record platform =
  platform_id :: int
  node_type :: string
  p_state :: platform_state
  p_time_left :: int
  cur_visitor :: "int list"
  visitor :: "int list"

text \<open>
  The scheduler object together with the objects it shares with its caller.
  \<open>heap\<close> holds the robot objects of the caller's list \<open>robots\<close>, the object at
  position \<open>i\<close> of that list at address \<open>i\<close>; \<open>robots\<close> is \<open>self.robots\<close>, a list
  of references into the heap; \<open>platform_map\<close> is the dictionary from platform id to
  platform object, as an association list read with \<open>map_of\<close> and written with
  \<open>AList.update\<close>; \<open>times_taken\<close> is the attribute \<open>times\<close>.  Distinct
  positions of the caller's list and distinct keys of the dictionary are taken to
  hold distinct objects, as \<open>InputReader\<close> builds them.
\<close>

record scheduler =
  heap :: "robot list"
  robots :: "nat list"
  platform_map :: "(int \<times> platform) list"
  times_taken :: int

section \<open>Service durations: Organizer.action and Mover.action\<close>

fun action :: "kind \<Rightarrow> string \<Rightarrow> error + int" where
  "action Organizer nt =
     (if nt = ''A'' then Inr 30 else if nt = ''B'' then Inr 45 else Inl ValueError)"
| "action Mover nt =
     (if nt = ''A'' then Inr 20 else if nt = ''B'' then Inr 35 else Inl ValueError)"

text \<open>The sort key of line 154: the integer code of the robot's state.\<close>

fun state_num :: "robot_state \<Rightarrow> nat" where
  "state_num Working = 1"
| "state_num Waiting = 2"
| "state_num Moving = 3"

section \<open>RobotScheduler.\_\_init\_\_\<close>

text \<open>
  Line 128, \<open>[robots[i] for i in [0, 2, 1, 3]]\<close>: the references are read one by
  one, and the first index past the end of the list raises IndexError.
\<close>

fun pick :: "robot list \<Rightarrow> nat list \<Rightarrow> error + nat list" where
  "pick rs [] = Inr []"
| "pick rs (i # js) =
     (if i < length rs
      then (case pick rs js of Inl e \<Rightarrow> Inl e | Inr refs \<Rightarrow> Inr (i # refs))
      else Inl IndexError)"

text \<open>
  Lines 134 to 142, the body of the initialisation loop for the robot at address \<open>i\<close>.
  \<open>robot.path[0]\<close> raises IndexError on an empty deque.
\<close>

definition init_robot :: "nat \<Rightarrow> scheduler \<Rightarrow> error + scheduler" where
  "init_robot i s =
     (let robot = heap s ! i in
      case path robot of
        [] \<Rightarrow> Inl IndexError
      | p # _ \<Rightarrow>
         (case map_of (platform_map s) p of
            None \<Rightarrow> Inl KeyError
          | Some platform \<Rightarrow>
             (case action (kind robot) (node_type platform) of
                Inl e \<Rightarrow> Inl e
              | Inr d \<Rightarrow>
                 Inr (s\<lparr>heap := (heap s)[i := robot\<lparr>state := Working, time_left := d\<rparr>],
                        platform_map :=
                          AList.update p
                            (platform\<lparr>p_state := Busy, p_time_left := d,
                               cur_visitor := cur_visitor platform @ [robot_id robot],
                               visitor := visitor platform @ [robot_id robot]\<rparr>)
                            (platform_map s)\<rparr>))))"

fun init_loop :: "nat list \<Rightarrow> scheduler \<Rightarrow> error + scheduler" where
  "init_loop [] s = Inr s"
| "init_loop (i # js) s =
     (case init_robot i s of Inl e \<Rightarrow> Inl e | Inr s' \<Rightarrow> init_loop js s')"

definition RobotScheduler_init :: "robot list \<Rightarrow> (int \<times> platform) list \<Rightarrow> error + scheduler" where
  "RobotScheduler_init rs pm =
     (case pick rs [0, 2, 1, 3] of
        Inl e \<Rightarrow> Inl e
      | Inr refs \<Rightarrow>
          init_loop refs \<lparr>heap = rs, robots = refs, platform_map = pm, times_taken = 0\<rparr>)"

text \<open>
  What lines 136 to 142 leave of a robot that was \<open>r0\<close> when it was passed in, once
  the constructor is done: the robot \<open>r\<close> is \<open>r0\<close> set to Working with the service
  duration of its first platform as \<open>time_left\<close>, and that platform is Busy and has
  the robot's id in its queue and in its visitor log.
\<close>

definition initialised :: "robot \<Rightarrow> robot \<Rightarrow> (int \<times> platform) list \<Rightarrow> bool" where
  "initialised r0 r pm =
     (case path r0 of
        [] \<Rightarrow> False
      | p # _ \<Rightarrow>
         (case map_of pm p of
            None \<Rightarrow> False
          | Some pl \<Rightarrow>
             (case action (kind r0) (node_type pl) of
                Inl e \<Rightarrow> False
              | Inr d \<Rightarrow>
                  r = r0\<lparr>state := Working, time_left := d\<rparr> \<and> p_state pl = Busy \<and>
                  robot_id r0 \<in> set (cur_visitor pl) \<and> robot_id r0 \<in> set (visitor pl))))"

section \<open>RobotScheduler.run\<close>

text \<open>Line 162: \<open>robot.time_spend += 1\<close>.\<close>

definition spend :: "nat \<Rightarrow> scheduler \<Rightarrow> scheduler" where
  "spend i s =
     s\<lparr>heap := (heap s)[i := (heap s ! i)\<lparr>time_spend := time_spend (heap s ! i) + 1\<rparr>]\<rparr>"

text \<open>
  Lines 165 to 204: the countdown while \<open>time_left > 0\<close>, and the change of state
  otherwise.  \<open>robot.path[0]\<close> and \<open>cur_visitor.popleft()\<close> raise IndexError on an
  empty deque, \<open>platform_map[...]\<close> raises KeyError on a missing id.
\<close>

definition advance :: "nat \<Rightarrow> scheduler \<Rightarrow> error + scheduler" where
  "advance i s =
     (let robot = heap s ! i in
      case path robot of
        [] \<Rightarrow>
          (if time_left robot > 0 \<and> state robot \<noteq> Working
           then Inr (s\<lparr>heap := (heap s)[i := robot\<lparr>time_left := time_left robot - 1\<rparr>]\<rparr>)
           else Inl IndexError)
      | p # ps \<Rightarrow>
          (if time_left robot > 0 then
             (case state robot of
                Working \<Rightarrow>
                  (case map_of (platform_map s) p of
                     None \<Rightarrow> Inl KeyError
                   | Some platform \<Rightarrow>
                       Inr (s\<lparr>heap := (heap s)[i := robot\<lparr>time_left := time_left robot - 1\<rparr>],
                              platform_map :=
                                AList.update p
                                  (platform\<lparr>p_time_left := p_time_left platform - 1\<rparr>)
                                  (platform_map s)\<rparr>))
              | Waiting \<Rightarrow>
                  Inr (s\<lparr>heap := (heap s)[i := robot\<lparr>time_left := time_left robot - 1\<rparr>]\<rparr>)
              | Moving \<Rightarrow>
                  Inr (s\<lparr>heap := (heap s)[i := robot\<lparr>time_left := time_left robot - 1\<rparr>]\<rparr>))
           else
             (case map_of (platform_map s) p of
                None \<Rightarrow> Inl KeyError
              | Some platform \<Rightarrow>
                 (case state robot of
                    Working \<Rightarrow>
                      (case cur_visitor platform of
                         [] \<Rightarrow> Inl IndexError
                       | _ # vs \<Rightarrow>
                           Inr (s\<lparr>heap := (heap s)[i := robot\<lparr>state := Moving,
                                           time_left := velocity robot - 1, path := ps\<rparr>],
                                  platform_map :=
                                    AList.update p
                                      (if vs \<noteq> []
                                       then platform\<lparr>p_time_left := p_time_left platform - 1,
                                              cur_visitor := vs\<rparr>
                                       else platform\<lparr>p_state := Free, p_time_left := 0,
                                              cur_visitor := vs\<rparr>)
                                      (platform_map s)\<rparr>))
                  | Waiting \<Rightarrow>
                      (case action (kind robot) (node_type platform) of
                         Inl e \<Rightarrow> Inl e
                       | Inr d \<Rightarrow>
                           Inr (s\<lparr>heap := (heap s)[i := robot\<lparr>state := Working,
                                           time_left := d - 1\<rparr>]\<rparr>))
                  | Moving \<Rightarrow>
                      (let cv = cur_visitor platform @ [robot_id robot];
                           vl = (if visitor platform = [] \<or> last (visitor platform) \<noteq> robot_id robot
                                 then visitor platform @ [robot_id robot]
                                 else visitor platform)
                       in case action (kind robot) (node_type platform) of
                            Inl e \<Rightarrow> Inl e
                          | Inr d \<Rightarrow>
                             (case p_state platform of
                                Busy \<Rightarrow>
                                  Inr (s\<lparr>heap := (heap s)[i := robot\<lparr>state := Waiting,
                                                  time_left := p_time_left platform\<rparr>],
                                         platform_map :=
                                           AList.update p
                                             (platform\<lparr>p_time_left := p_time_left platform + d,
                                                cur_visitor := cv, visitor := vl\<rparr>)
                                             (platform_map s)\<rparr>)
                              | Free \<Rightarrow>
                                  Inr (s\<lparr>heap := (heap s)[i := robot\<lparr>state := Working,
                                                  time_left := d - 1\<rparr>],
                                         platform_map :=
                                           AList.update p
                                             (platform\<lparr>p_state := Busy, p_time_left := d - 1,
                                                cur_visitor := cv, visitor := vl\<rparr>)
                                             (platform_map s)\<rparr>)))))))"

text \<open>
  Lines 154 to 204, the loop over the sorted robots: a robot whose path is empty is
  skipped, any other robot sets \<open>flag\<close> and is evaluated.
\<close>

fun pass :: "nat list \<Rightarrow> bool \<Rightarrow> scheduler \<Rightarrow> error + bool \<times> scheduler" where
  "pass [] flag s = Inr (flag, s)"
| "pass (i # js) flag s =
     (if path (heap s ! i) = [] then pass js flag s
      else (case advance i (spend i s) of
              Inl e \<Rightarrow> Inl e
            | Inr s' \<Rightarrow> pass js True s'))"

text \<open>
  Line 154: \<open>sorted(self.robots, key = lambda r : r.state)\<close>, a stable sort computed
  once, before the first robot of the tick is evaluated.
\<close>

definition tick_order :: "scheduler \<Rightarrow> nat list" where
  "tick_order s = sort_key (\<lambda>i. state_num (state (heap s ! i))) (robots s)"

text \<open>Lines 150 to 204: one iteration of the while loop, returning the new flag.\<close>

definition tick :: "scheduler \<Rightarrow> error + bool \<times> scheduler" where
  "tick s = (let s1 = s\<lparr>times_taken := times_taken s + 1\<rparr> in pass (tick_order s1) False s1)"

text \<open>Lines 146 to 204: the while loop; \<open>None\<close> would be a run that never returns.\<close>

partial_function (option) run :: "scheduler \<Rightarrow> (error + scheduler) option" where
  "run s =
     (case tick s of
        Inl e \<Rightarrow> Some (Inl e)
      | Inr (flag, s') \<Rightarrow> if flag then run s' else Some (Inr s'))"

declare run.simps [code]

text \<open>Lines 315 and 316: construct the scheduler, then run it.\<close>

definition simulate :: "robot list \<Rightarrow> (int \<times> platform) list \<Rightarrow> (error + scheduler) option" where
  "simulate rs pm =
     (case RobotScheduler_init rs pm of
        Inl e \<Rightarrow> Some (Inl e)
      | Inr s \<Rightarrow> run s)"

text \<open>
  The while loop with fuel: the state after \<open>n\<close> iterations, with \<open>True\<close> while the
  loop is still running; once an iteration leaves \<open>flag\<close> false the loop has ended and
  its final state is kept.
\<close>

fun ticks :: "nat \<Rightarrow> scheduler \<Rightarrow> error + bool \<times> scheduler" where
  "ticks 0 s = Inr (True, s)"
| "ticks (Suc n) s =
     (case tick s of
        Inl e \<Rightarrow> Inl e
      | Inr (flag, s') \<Rightarrow> if flag then ticks n s' else Inr (False, s'))"

section \<open>The termination order\<close>

text \<open>
  Every evaluation of a robot with a non-empty path moves the robot down in the
  lexicographic order on (remaining path length, state, countdown), where Moving is
  above Waiting and Waiting above Working: a countdown lowers the third component, an
  arrival or the start of a service lowers the second, a departure lowers the first.
\<close>

fun rank :: "robot_state \<Rightarrow> nat" where
  "rank Working = 0"
| "rank Waiting = 1"
| "rank Moving = 2"

definition progress :: "robot \<Rightarrow> nat \<times> nat \<times> nat" where
  "progress r = (length (path r), rank (state r), nat (time_left r))"

definition robot_less :: "(robot \<times> robot) set" where
  "robot_less = inv_image (less_than <*lex*> less_than <*lex*> less_than) progress"

definition sched_less :: "(scheduler \<times> scheduler) set" where
  "sched_less = inv_image (lex robot_less) heap"

text \<open>Every reference of \<open>self.robots\<close> points to a robot object.\<close>

definition refs_ok :: "scheduler \<Rightarrow> bool" where
  "refs_ok s = list_all (\<lambda>i. i < length (heap s)) (robots s)"

text \<open>One robot is at or below another in the termination order.\<close>

definition below :: "robot \<Rightarrow> robot \<Rightarrow> bool" where
  "below x y = (x = y \<or> (x, y) \<in> robot_less)"

section \<open>Observing a run\<close>

text \<open>The state, the remaining path and the time spent of the robot at address \<open>i\<close>.\<close>

definition observe :: "nat \<Rightarrow> scheduler \<Rightarrow> robot_state \<times> int list \<times> int" where
  "observe i s = (state (heap s ! i), path (heap s ! i), time_spend (heap s ! i))"

text \<open>
  The robot at address \<open>i\<close> as seen after each of the next \<open>n\<close> iterations of the
  while loop; the list ends with the loop, or at an exception.
\<close>

fun trace :: "nat \<Rightarrow> nat \<Rightarrow> scheduler \<Rightarrow> (robot_state \<times> int list \<times> int) list" where
  "trace i 0 s = []"
| "trace i (Suc n) s =
     (case tick s of
        Inl e \<Rightarrow> []
      | Inr (flag, s') \<Rightarrow> observe i s' # (if flag then trace i n s' else []))"

definition simulate_trace ::
  "nat \<Rightarrow> nat \<Rightarrow> robot list \<Rightarrow> (int \<times> platform) list \<Rightarrow> (robot_state \<times> int list \<times> int) list" where
  "simulate_trace i n rs pm =
     (case RobotScheduler_init rs pm of
        Inl e \<Rightarrow> []
      | Inr s \<Rightarrow> observe i s # trace i n s)"

text \<open>Construction followed by \<open>n\<close> iterations of the while loop.\<close>

definition simulate_ticks ::
  "nat \<Rightarrow> robot list \<Rightarrow> (int \<times> platform) list \<Rightarrow> error + bool \<times> scheduler" where
  "simulate_ticks n rs pm =
     (case RobotScheduler_init rs pm of
        Inl e \<Rightarrow> Inl e
      | Inr s \<Rightarrow> ticks n s)"

text \<open>
  The bound of the specification, in its words: the sum of the path lengths times
  the maximum of the service durations and the velocities.  The service durations
  are taken to be all four entries of the table, the largest reading of the bound.
\<close>

definition spec_tick_bound :: "robot list \<Rightarrow> int" where
  "spec_tick_bound rs =
     sum_list (map (\<lambda>r. int (length (path r))) rs) *
     fold max (map velocity rs) (max (max 30 45) (max 20 35))"

section \<open>Inputs\<close>

text \<open>
  A robot as \<open>InputReader.read_robots\<close> builds it (lines 225 to 249: state 1, no
  time left, no time spent, the path read from the paths file) and a platform with
  its key as \<open>InputReader.read_platforms\<close> builds it (lines 260 to 267: state 2, no
  time left, nobody queued and no visitor).
\<close>

definition read_robot :: "int \<Rightarrow> kind \<Rightarrow> int \<Rightarrow> int list \<Rightarrow> robot" where
  "read_robot n k v ps =
     \<lparr>robot_id = n, kind = k, velocity = v, state = Working, path = ps,
      time_left = 0, time_spend = 0\<rparr>"

definition read_platform :: "int \<Rightarrow> string \<Rightarrow> int \<times> platform" where
  "read_platform n nt =
     (n, \<lparr>platform_id = n, node_type = nt, p_state = Free, p_time_left = 0,
          cur_visitor = [], visitor = []\<rparr>)"

text \<open>
  A state in the middle of a run: robot 1 and robot 4 finish their services, robot 3
  has waited for robot 4 at platform 2, and robot 2 arrives at platform 1.
\<close>

definition handover_state :: scheduler where
  "handover_state =
     \<lparr>heap =
        [\<lparr>robot_id = 1, kind = Organizer, velocity = 5, state = Working, path = [1, 2],
           time_left = 0, time_spend = 30\<rparr>,
         \<lparr>robot_id = 2, kind = Mover, velocity = 2, state = Moving, path = [1],
           time_left = 0, time_spend = 30\<rparr>,
         \<lparr>robot_id = 3, kind = Mover, velocity = 3, state = Waiting, path = [2],
           time_left = 0, time_spend = 30\<rparr>,
         \<lparr>robot_id = 4, kind = Organizer, velocity = 1, state = Working, path = [2],
           time_left = 0, time_spend = 30\<rparr>],
      robots = [0, 2, 1, 3],
      platform_map =
        [(1, \<lparr>platform_id = 1, node_type = ''A'', p_state = Busy, p_time_left = 0,
               cur_visitor = [1], visitor = [1]\<rparr>),
         (2, \<lparr>platform_id = 2, node_type = ''B'', p_state = Busy, p_time_left = 35,
               cur_visitor = [4, 3], visitor = [4, 3]\<rparr>)],
      times_taken = 30\<rparr>"

text \<open>The state one tick later.\<close>

definition handover_next :: scheduler where
  "handover_next =
     \<lparr>heap =
        [\<lparr>robot_id = 1, kind = Organizer, velocity = 5, state = Moving, path = [2],
           time_left = 4, time_spend = 31\<rparr>,
         \<lparr>robot_id = 2, kind = Mover, velocity = 2, state = Working, path = [1],
           time_left = 19, time_spend = 31\<rparr>,
         \<lparr>robot_id = 3, kind = Mover, velocity = 3, state = Working, path = [2],
           time_left = 34, time_spend = 31\<rparr>,
         \<lparr>robot_id = 4, kind = Organizer, velocity = 1, state = Moving, path = [],
           time_left = 0, time_spend = 31\<rparr>],
      robots = [0, 2, 1, 3],
      platform_map =
        [(1, \<lparr>platform_id = 1, node_type = ''A'', p_state = Busy, p_time_left = 19,
               cur_visitor = [2], visitor = [1, 2]\<rparr>),
         (2, \<lparr>platform_id = 2, node_type = ''B'', p_state = Busy, p_time_left = 34,
               cur_visitor = [3], visitor = [4, 3]\<rparr>)],
      times_taken = 31\<rparr>"

text \<open>The first state with platform 1 already free.\<close>

definition arrival_state :: scheduler where
  "arrival_state =
     handover_state\<lparr>platform_map :=
        [(1, \<lparr>platform_id = 1, node_type = ''A'', p_state = Free, p_time_left = 0,
               cur_visitor = [], visitor = [1]\<rparr>),
         (2, \<lparr>platform_id = 2, node_type = ''B'', p_state = Busy, p_time_left = 35,
               cur_visitor = [4, 3], visitor = [4, 3]\<rparr>)]\<rparr>"

text \<open>The first state with every path walked to its end.\<close>

definition idle_state :: scheduler where
  "idle_state = handover_state\<lparr>heap := map (\<lambda>r. r\<lparr>path := []\<rparr>) (heap handover_state)\<rparr>"

text \<open>
  The scenario of the specification, an Organizer of velocity 5 on the path from
  platform 1 (node type A) to platform 2 (node type B), together with the three
  further robots the constructor asks for, each on a platform of its own.
\<close>

definition solo_robots :: "robot list" where
  "solo_robots =
     [read_robot 1 Organizer 5 [1, 2], read_robot 2 Mover 1 [3],
      read_robot 3 Mover 1 [4], read_robot 4 Mover 1 [5]]"

definition solo_platforms :: "(int \<times> platform) list" where
  "solo_platforms =
     [read_platform 1 ''A'', read_platform 2 ''B'', read_platform 3 ''A'',
      read_platform 4 ''A'', read_platform 5 ''A'']"

text \<open>
  One Organizer of velocity 45 that visits six platforms of node type B, and three
  Organizers with one platform each: nine path entries in all, and no service
  duration or velocity above 45.
\<close>

definition long_robots :: "robot list" where
  "long_robots =
     [read_robot 1 Organizer 45 [1, 2, 1, 2, 1, 2], read_robot 2 Organizer 1 [3],
      read_robot 3 Organizer 1 [4], read_robot 4 Organizer 1 [5]]"

definition long_platforms :: "(int \<times> platform) list" where
  "long_platforms =
     [read_platform 1 ''B'', read_platform 2 ''B'', read_platform 3 ''B'',
      read_platform 4 ''B'', read_platform 5 ''B'']"

text \<open>Four robots, the second of which has no entry in the paths file.\<close>

definition pathless_robots :: "robot list" where
  "pathless_robots =
     [read_robot 1 Organizer 5 [1, 2], read_robot 2 Mover 1 [],
      read_robot 3 Mover 1 [4], read_robot 4 Mover 1 [5]]"

text \<open>
  Robot 1 and robot 2 start on platform 1, and robot 2 comes back to it at once.
\<close>

definition shared_robots :: "robot list" where
  "shared_robots =
     [read_robot 1 Organizer 5 [1], read_robot 2 Mover 1 [1, 1],
      read_robot 3 Mover 1 [3], read_robot 4 Mover 1 [4]]"

text \<open>Five robots: the fifth is past the end of what the constructor reads.\<close>

definition spare_robots :: "robot list" where
  "spare_robots =
     [read_robot 1 Mover 1 [1], read_robot 2 Mover 1 [2], read_robot 3 Mover 1 [3],
      read_robot 4 Mover 1 [4], read_robot 5 Organizer 7 [1, 2]]"

section \<open>The service-duration table\<close>

text \<open>
  Claim C9.  \<open>action\<close> returns 30 and 45 for an Organizer and 20 and 35 for a Mover
  on the node types A and B; for both kinds it raises ValueError exactly when the
  node type is neither A nor B, and it raises nothing else.  The function takes the
  node type only and returns a value: it has no state to change and no fallback.
\<close>

theorem action_table:
  "action Organizer ''A'' = Inr 30 \<and> action Organizer ''B'' = Inr 45 \<and>
   action Mover ''A'' = Inr 20 \<and> action Mover ''B'' = Inr 35 \<and>
   (\<forall>k nt. (action k nt = Inl ValueError) = (nt \<noteq> ''A'' \<and> nt \<noteq> ''B'')) \<and>
   (\<forall>k nt. isl (action k nt) = (action k nt = Inl ValueError))"
proof -
  have tab: "action Organizer ''A'' = Inr 30" "action Organizer ''B'' = Inr 45"
    "action Mover ''A'' = Inr 20" "action Mover ''B'' = Inr 35"
    by simp_all
  have err: "(action k nt = Inl ValueError) = (nt \<noteq> ''A'' \<and> nt \<noteq> ''B'')" for k nt
    by (cases k) simp_all
  have only: "isl (action k nt) = (action k nt = Inl ValueError)" for k nt
    by (cases k) simp_all
  from tab err only show ?thesis by blast
qed

section \<open>The evaluation of one robot\<close>

text \<open>
  The three theorems of this section are about \<open>advance\<close>, lines 165 to 204 of
  \<open>run\<close>, for the robot at address \<open>i\<close> of any state \<open>s\<close>.  In the loop it runs
  on the state in which line 162 has already added one to the robot's \<open>time_spend\<close>;
  \<open>advance\<close> itself never changes \<open>time_spend\<close>.
\<close>

text \<open>
  Claim C4.  A robot with a non-empty path and a positive \<open>time_left\<close> has its
  \<open>time_left\<close> lowered by exactly one, and nothing else of the robot changes, its
  state and its path included.  If the robot is Working, the \<open>time_left\<close> of the
  platform at the front of its path is lowered by exactly one and no other field of
  any platform changes (the lookup of that platform must succeed, otherwise the code
  raises KeyError); if the robot is Waiting or Moving, the platform dictionary is
  left exactly as it was.
\<close>

theorem countdown_step:
  assumes "i < length (heap s)"
    and "path (heap s ! i) = p # ps"
    and "0 < time_left (heap s ! i)"
    and "state (heap s ! i) = Working \<longrightarrow> map_of (platform_map s) p = Some pl"
  shows "\<exists>s'. advance i s = Inr s' \<and>
           heap s' = (heap s)[i := (heap s ! i)\<lparr>time_left := time_left (heap s ! i) - 1\<rparr>] \<and>
           robots s' = robots s \<and> times_taken s' = times_taken s \<and>
           (state (heap s ! i) = Working \<longrightarrow>
              map_of (platform_map s') =
                (map_of (platform_map s))(p \<mapsto> pl\<lparr>p_time_left := p_time_left pl - 1\<rparr>)) \<and>
           (state (heap s ! i) \<noteq> Working \<longrightarrow> platform_map s' = platform_map s)"
  using assms
  by (cases "state (heap s ! i)") (auto simp: advance_def Let_def update_conv')

theorem countdown_step_witness:
  "(\<exists>s'. advance 2 handover_next = Inr s' \<and> state (heap s' ! 2) = Working \<and>
      path (heap s' ! 2) = [2] \<and> time_left (heap s' ! 2) = 33 \<and>
      map_option p_time_left (map_of (platform_map s') 2) = Some 33) \<and>
   (\<exists>s'. advance 0 handover_next = Inr s' \<and> state (heap s' ! 0) = Moving \<and>
      path (heap s' ! 0) = [2] \<and> time_left (heap s' ! 0) = 3 \<and>
      platform_map s' = platform_map handover_next)"
proof -
  have pl: "map_of (platform_map handover_next) 2 =
      Some \<lparr>platform_id = 2, node_type = ''B'', p_state = Busy, p_time_left = 34,
             cur_visitor = [3], visitor = [4, 3]\<rparr>"
    by (simp add: handover_next_def)
  have "\<exists>s'. advance 2 handover_next = Inr s' \<and> state (heap s' ! 2) = Working \<and>
      path (heap s' ! 2) = [2] \<and> time_left (heap s' ! 2) = 33 \<and>
      map_option p_time_left (map_of (platform_map s') 2) = Some 33"
    using countdown_step [of 2 handover_next 2 "[]", OF _ _ _ impI [OF pl]]
    by (auto simp: handover_next_def)
  moreover have "\<exists>s'. advance 0 handover_next = Inr s' \<and> state (heap s' ! 0) = Moving \<and>
      path (heap s' ! 0) = [2] \<and> time_left (heap s' ! 0) = 3 \<and>
      platform_map s' = platform_map handover_next"
    using countdown_step [of 0 handover_next 2 "[]"]
    by (auto simp: handover_next_def)
  ultimately show ?thesis by blast
qed

text \<open>
  Claim C3.  A robot whose countdown is over (\<open>time_left\<close> is not positive) and whose
  path front is a platform of the dictionary: if it is Working and the platform's
  queue is not empty, the path loses its front, the queue loses its front, the robot
  becomes Moving with \<open>time_left = velocity - 1\<close>, and the platform's \<open>time_left\<close>
  is lowered by one when the queue is still non-empty, while otherwise the platform
  becomes Free with \<open>time_left = 0\<close>; if it is Waiting, it becomes Working with
  \<open>time_left = action - 1\<close>, and the state is otherwise exactly as before.
\<close>

theorem departure_and_service_start:
  assumes "i < length (heap s)"
    and "path (heap s ! i) = p # ps"
    and "time_left (heap s ! i) \<le> 0"
    and "map_of (platform_map s) p = Some pl"
  shows "(state (heap s ! i) = Working \<and> cur_visitor pl = v # vs \<longrightarrow>
            (\<exists>s'. advance i s = Inr s' \<and>
               heap s' = (heap s)[i := (heap s ! i)\<lparr>state := Moving,
                            time_left := velocity (heap s ! i) - 1, path := ps\<rparr>] \<and>
               robots s' = robots s \<and> times_taken s' = times_taken s \<and>
               map_of (platform_map s') =
                 (map_of (platform_map s))(p \<mapsto>
                    (if vs \<noteq> []
                     then pl\<lparr>p_time_left := p_time_left pl - 1, cur_visitor := vs\<rparr>
                     else pl\<lparr>p_state := Free, p_time_left := 0, cur_visitor := vs\<rparr>)))) \<and>
         (state (heap s ! i) = Waiting \<and> action (kind (heap s ! i)) (node_type pl) = Inr d \<longrightarrow>
            advance i s =
              Inr (s\<lparr>heap := (heap s)[i := (heap s ! i)\<lparr>state := Working, time_left := d - 1\<rparr>]\<rparr>))"
  using assms
  by (cases "state (heap s ! i)") (auto simp: advance_def Let_def update_conv')

theorem departure_and_service_start_witness:
  "(\<exists>s'. advance 3 handover_state = Inr s' \<and> state (heap s' ! 3) = Moving \<and>
      path (heap s' ! 3) = [] \<and> time_left (heap s' ! 3) = 0 \<and>
      map_of (platform_map s') 2 =
        Some \<lparr>platform_id = 2, node_type = ''B'', p_state = Busy, p_time_left = 34,
               cur_visitor = [3], visitor = [4, 3]\<rparr>) \<and>
   (\<exists>s'. advance 0 handover_state = Inr s' \<and> state (heap s' ! 0) = Moving \<and>
      path (heap s' ! 0) = [2] \<and> time_left (heap s' ! 0) = 4 \<and>
      map_of (platform_map s') 1 =
        Some \<lparr>platform_id = 1, node_type = ''A'', p_state = Free, p_time_left = 0,
               cur_visitor = [], visitor = [1]\<rparr>) \<and>
   (\<exists>s'. advance 2 handover_state = Inr s' \<and> state (heap s' ! 2) = Working \<and>
      time_left (heap s' ! 2) = 34 \<and> platform_map s' = platform_map handover_state)"
proof -
  have p2: "map_of (platform_map handover_state) 2 =
      Some \<lparr>platform_id = 2, node_type = ''B'', p_state = Busy, p_time_left = 35,
             cur_visitor = [4, 3], visitor = [4, 3]\<rparr>"
    by (simp add: handover_state_def)
  have p1: "map_of (platform_map handover_state) 1 =
      Some \<lparr>platform_id = 1, node_type = ''A'', p_state = Busy, p_time_left = 0,
             cur_visitor = [1], visitor = [1]\<rparr>"
    by (simp add: handover_state_def)
  have "\<exists>s'. advance 3 handover_state = Inr s' \<and> state (heap s' ! 3) = Moving \<and>
      path (heap s' ! 3) = [] \<and> time_left (heap s' ! 3) = 0 \<and>
      map_of (platform_map s') 2 =
        Some \<lparr>platform_id = 2, node_type = ''B'', p_state = Busy, p_time_left = 34,
               cur_visitor = [3], visitor = [4, 3]\<rparr>"
    using departure_and_service_start [of 3 handover_state 2 "[]" _ 4 "[3]", OF _ _ _ p2]
    by (auto simp: handover_state_def)
  moreover have "\<exists>s'. advance 0 handover_state = Inr s' \<and> state (heap s' ! 0) = Moving \<and>
      path (heap s' ! 0) = [2] \<and> time_left (heap s' ! 0) = 4 \<and>
      map_of (platform_map s') 1 =
        Some \<lparr>platform_id = 1, node_type = ''A'', p_state = Free, p_time_left = 0,
               cur_visitor = [], visitor = [1]\<rparr>"
    using departure_and_service_start [of 0 handover_state 1 "[2]" _ 1 "[]", OF _ _ _ p1]
    by (auto simp: handover_state_def)
  moreover have "\<exists>s'. advance 2 handover_state = Inr s' \<and> state (heap s' ! 2) = Working \<and>
      time_left (heap s' ! 2) = 34 \<and> platform_map s' = platform_map handover_state"
    using departure_and_service_start [of 2 handover_state 2 "[]" _ _ _ 35, OF _ _ _ p2]
    by (auto simp: handover_state_def)
  ultimately show ?thesis by blast
qed

text \<open>
  Claim C1.  A Moving robot whose countdown is over arrives at the platform at the
  front of its path: its id is appended to the back of the platform's queue, and to
  the platform's visitor log exactly when it is not already the last entry of the
  log.  If the platform is Busy the robot becomes Waiting with the platform's
  current \<open>time_left\<close> and the platform's \<open>time_left\<close> grows by the robot's service
  duration for the platform's node type; if the platform is Free the robot becomes
  Working, the platform Busy, and both get \<open>time_left = action - 1\<close>.
\<close>

theorem arrival_step:
  assumes "i < length (heap s)"
    and "state (heap s ! i) = Moving"
    and "path (heap s ! i) = p # ps"
    and "time_left (heap s ! i) \<le> 0"
    and "map_of (platform_map s) p = Some pl"
    and "action (kind (heap s ! i)) (node_type pl) = Inr d"
  shows "\<exists>s' pl'. advance i s = Inr s' \<and>
           robots s' = robots s \<and> times_taken s' = times_taken s \<and>
           map_of (platform_map s') = (map_of (platform_map s))(p \<mapsto> pl') \<and>
           platform_id pl' = platform_id pl \<and> node_type pl' = node_type pl \<and>
           cur_visitor pl' = cur_visitor pl @ [robot_id (heap s ! i)] \<and>
           visitor pl' =
             (if visitor pl \<noteq> [] \<and> last (visitor pl) = robot_id (heap s ! i)
              then visitor pl else visitor pl @ [robot_id (heap s ! i)]) \<and>
           (p_state pl = Busy \<longrightarrow>
              heap s' = (heap s)[i := (heap s ! i)\<lparr>state := Waiting, time_left := p_time_left pl\<rparr>] \<and>
              p_state pl' = Busy \<and> p_time_left pl' = p_time_left pl + d) \<and>
           (p_state pl = Free \<longrightarrow>
              heap s' = (heap s)[i := (heap s ! i)\<lparr>state := Working, time_left := d - 1\<rparr>] \<and>
              p_state pl' = Busy \<and> p_time_left pl' = d - 1)"
  using assms
  by (cases "p_state pl") (auto simp: advance_def Let_def update_conv')

theorem arrival_step_witness:
  "(\<exists>s'. advance 1 handover_state = Inr s' \<and> state (heap s' ! 1) = Waiting \<and>
      time_left (heap s' ! 1) = 0 \<and>
      map_of (platform_map s') 1 =
        Some \<lparr>platform_id = 1, node_type = ''A'', p_state = Busy, p_time_left = 20,
               cur_visitor = [1, 2], visitor = [1, 2]\<rparr>) \<and>
   (\<exists>s'. advance 1 arrival_state = Inr s' \<and> state (heap s' ! 1) = Working \<and>
      time_left (heap s' ! 1) = 19 \<and>
      map_of (platform_map s') 1 =
        Some \<lparr>platform_id = 1, node_type = ''A'', p_state = Busy, p_time_left = 19,
               cur_visitor = [2], visitor = [1, 2]\<rparr>)"
proof -
  have p1: "map_of (platform_map handover_state) 1 =
      Some \<lparr>platform_id = 1, node_type = ''A'', p_state = Busy, p_time_left = 0,
             cur_visitor = [1], visitor = [1]\<rparr>"
    by (simp add: handover_state_def)
  have q1: "map_of (platform_map arrival_state) 1 =
      Some \<lparr>platform_id = 1, node_type = ''A'', p_state = Free, p_time_left = 0,
             cur_visitor = [], visitor = [1]\<rparr>"
    by (simp add: arrival_state_def)
  have "\<exists>s'. advance 1 handover_state = Inr s' \<and> state (heap s' ! 1) = Waiting \<and>
      time_left (heap s' ! 1) = 0 \<and>
      map_of (platform_map s') 1 =
        Some \<lparr>platform_id = 1, node_type = ''A'', p_state = Busy, p_time_left = 20,
               cur_visitor = [1, 2], visitor = [1, 2]\<rparr>"
    using arrival_step [of 1 handover_state 1 "[]" _ 20, OF _ _ _ _ p1]
    by (auto simp: handover_state_def)
  moreover have "\<exists>s'. advance 1 arrival_state = Inr s' \<and> state (heap s' ! 1) = Working \<and>
      time_left (heap s' ! 1) = 19 \<and>
      map_of (platform_map s') 1 =
        Some \<lparr>platform_id = 1, node_type = ''A'', p_state = Busy, p_time_left = 19,
               cur_visitor = [2], visitor = [1, 2]\<rparr>"
    using arrival_step [of 1 arrival_state 1 "[]" _ 20, OF _ _ _ _ q1]
    by (auto simp: arrival_state_def handover_state_def)
  ultimately show ?thesis by blast
qed

section \<open>The order of evaluation within a tick\<close>

lemma sorted_same_state:
  "sorted (map (\<lambda>i. state_num (f i)) (filter (\<lambda>i. f i = c) xs))"
  by (induction xs) auto

lemma sort_key_three:
  "sort_key (\<lambda>i. state_num (f i)) xs =
     filter (\<lambda>i. f i = Working) xs @ filter (\<lambda>i. f i = Waiting) xs @ filter (\<lambda>i. f i = Moving) xs"
proof (rule properties_for_sort_key)
  show "mset (filter (\<lambda>i. f i = Working) xs @ filter (\<lambda>i. f i = Waiting) xs @
          filter (\<lambda>i. f i = Moving) xs) = mset xs"
  proof (induction xs)
    case Nil
    then show ?case by simp
  next
    case (Cons x xs)
    then show ?case by (cases "f x") simp_all
  qed
next
  fix k
  assume "k \<in> set (filter (\<lambda>i. f i = Working) xs @ filter (\<lambda>i. f i = Waiting) xs @
          filter (\<lambda>i. f i = Moving) xs)"
  have eq: "(Suc 0 = state_num a) = (a = Working)" "(state_num a = 2) = (a = Waiting)"
    "(state_num a = 3) = (a = Moving)" for a
    by (cases a; simp)+
  show "filter (\<lambda>x. state_num (f k) = state_num (f x))
          (filter (\<lambda>i. f i = Working) xs @ filter (\<lambda>i. f i = Waiting) xs @
           filter (\<lambda>i. f i = Moving) xs) =
        filter (\<lambda>x. state_num (f k) = state_num (f x)) xs"
    by (cases "f k") (auto simp: eq intro!: filter_cong)
next
  show "sorted (map (\<lambda>i. state_num (f i))
          (filter (\<lambda>i. f i = Working) xs @ filter (\<lambda>i. f i = Waiting) xs @
           filter (\<lambda>i. f i = Moving) xs))"
    by (auto simp: sorted_append sorted_same_state)
qed

lemma pass_append:
  "pass (xs @ ys) flag s =
     (case pass xs flag s of Inl e \<Rightarrow> Inl e | Inr (flag', s') \<Rightarrow> pass ys flag' s')"
  by (induction xs arbitrary: flag s) (auto split: sum.splits)

lemma handover_tick: "tick handover_state = Inr (True, handover_next)"
  by code_simp

text \<open>
  Claim C2.  The robots of a tick are evaluated in the order \<open>tick_order\<close>, fixed
  from the states at the start of the pass: first the robots that are Working, then
  those that are Waiting, then those that are Moving, each group in the order of
  \<open>self.robots\<close>; the tick is the pass over the first group, continued on the state
  it leaves by the pass over the second, and then by the pass over the third.
  Hence a platform freed by a Working robot can be taken in the same tick by a Moving
  robot: in \<open>handover_state\<close> the robot at address 1 is Moving and comes before the
  Working robot at address 3 in \<open>self.robots\<close>; it is evaluated last, after the two
  Working robots, of which the one at address 0 has left platform 1 and freed it, and
  at the end of the tick it is Working there.
\<close>

theorem tick_priority_order:
  "tick_order s =
     filter (\<lambda>i. state (heap s ! i) = Working) (robots s) @
     filter (\<lambda>i. state (heap s ! i) = Waiting) (robots s) @
     filter (\<lambda>i. state (heap s ! i) = Moving) (robots s) \<and>
   tick s =
     (case pass (filter (\<lambda>i. state (heap s ! i) = Working) (robots s)) False
             (s\<lparr>times_taken := times_taken s + 1\<rparr>) of
        Inl e \<Rightarrow> Inl e
      | Inr (flag1, s1) \<Rightarrow>
          (case pass (filter (\<lambda>i. state (heap s ! i) = Waiting) (robots s)) flag1 s1 of
             Inl e \<Rightarrow> Inl e
           | Inr (flag2, s2) \<Rightarrow>
               pass (filter (\<lambda>i. state (heap s ! i) = Moving) (robots s)) flag2 s2)) \<and>
   robots handover_state = [0, 2, 1, 3] \<and>
   map (\<lambda>i. state (heap handover_state ! i)) [0, 2, 1, 3] = [Working, Waiting, Moving, Working] \<and>
   tick_order handover_state = [0, 3, 2, 1] \<and>
   map_of (platform_map handover_state) 1 =
     Some \<lparr>platform_id = 1, node_type = ''A'', p_state = Busy, p_time_left = 0,
            cur_visitor = [1], visitor = [1]\<rparr> \<and>
   map_sum id (\<lambda>(flag, t). map_option p_state (map_of (platform_map t) 1))
     (pass [0, 3] False (handover_state\<lparr>times_taken := 31\<rparr>)) = Inr (Some Free) \<and>
   tick handover_state = Inr (True, handover_next) \<and>
   observe 0 handover_next = (Moving, [2], 31) \<and>
   observe 1 handover_next = (Working, [1], 31) \<and>
   map_of (platform_map handover_next) 1 =
     Some \<lparr>platform_id = 1, node_type = ''A'', p_state = Busy, p_time_left = 19,
            cur_visitor = [2], visitor = [1, 2]\<rparr>"
proof -
  have order: "tick_order t =
     filter (\<lambda>i. state (heap t ! i) = Working) (robots t) @
     filter (\<lambda>i. state (heap t ! i) = Waiting) (robots t) @
     filter (\<lambda>i. state (heap t ! i) = Moving) (robots t)" for t
    unfolding tick_order_def by (rule sort_key_three)
  have "tick s = pass (tick_order s) False (s\<lparr>times_taken := times_taken s + 1\<rparr>)"
    by (simp add: tick_def Let_def tick_order_def)
  then have split: "tick s =
     (case pass (filter (\<lambda>i. state (heap s ! i) = Working) (robots s)) False
             (s\<lparr>times_taken := times_taken s + 1\<rparr>) of
        Inl e \<Rightarrow> Inl e
      | Inr (flag1, s1) \<Rightarrow>
          (case pass (filter (\<lambda>i. state (heap s ! i) = Waiting) (robots s)) flag1 s1 of
             Inl e \<Rightarrow> Inl e
           | Inr (flag2, s2) \<Rightarrow>
               pass (filter (\<lambda>i. state (heap s ! i) = Moving) (robots s)) flag2 s2))"
    by (simp only: order pass_append)
  have ex: "robots handover_state = [0, 2, 1, 3]"
    "map (\<lambda>i. state (heap handover_state ! i)) [0, 2, 1, 3] = [Working, Waiting, Moving, Working]"
    "map_of (platform_map handover_state) 1 =
       Some \<lparr>platform_id = 1, node_type = ''A'', p_state = Busy, p_time_left = 0,
              cur_visitor = [1], visitor = [1]\<rparr>"
    by (simp_all add: handover_state_def)
  have ord: "tick_order handover_state = [0, 3, 2, 1]"
    by code_simp
  have free: "map_sum id (\<lambda>(flag, t). map_option p_state (map_of (platform_map t) 1))
     (pass [0, 3] False (handover_state\<lparr>times_taken := 31\<rparr>)) = Inr (Some Free)"
    by code_simp
  have nx: "observe 0 handover_next = (Moving, [2], 31)"
    "observe 1 handover_next = (Working, [1], 31)"
    "map_of (platform_map handover_next) 1 =
       Some \<lparr>platform_id = 1, node_type = ''A'', p_state = Busy, p_time_left = 19,
              cur_visitor = [2], visitor = [1, 2]\<rparr>"
    by (simp_all add: handover_next_def observe_def)
  from order [of s] split ex ord free handover_tick nx show ?thesis by simp
qed

section \<open>Every evaluation moves a robot down the termination order\<close>

lemma robot_less_iff:
  "(r', r) \<in> robot_less \<longleftrightarrow>
     length (path r') < length (path r) \<or>
     length (path r') = length (path r) \<and>
       (rank (state r') < rank (state r) \<or>
        rank (state r') = rank (state r) \<and> nat (time_left r') < nat (time_left r))"
  by (simp add: robot_less_def progress_def)

lemma robot_less_trans: "(a, b) \<in> robot_less \<Longrightarrow> (b, c) \<in> robot_less \<Longrightarrow> (a, c) \<in> robot_less"
  unfolding robot_less_iff by linarith

lemma robot_less_irrefl: "(a, a) \<notin> robot_less"
  by (simp add: robot_less_iff)

lemma wf_robot_less: "wf robot_less"
  unfolding robot_less_def by (intro wf_inv_image wf_lex_prod wf_less_than)

lemma wf_sched_less: "wf sched_less"
  unfolding sched_less_def by (intro wf_inv_image wf_lex wf_robot_less)

lemma lex_pointwise:
  "list_all2 (\<lambda>x y. x = y \<or> (x, y) \<in> R) xs ys \<Longrightarrow> xs \<noteq> ys \<Longrightarrow> (xs, ys) \<in> lex R"
proof (induction xs ys rule: list_all2_induct)
  case Nil
  then show ?case by simp
next
  case (Cons x xs y ys)
  then show ?case
    by (auto simp: Cons_in_lex dest: list_all2_lengthD)
qed

lemma spend_simps:
  "robots (spend i s) = robots s" "times_taken (spend i s) = times_taken s"
  "platform_map (spend i s) = platform_map s" "length (heap (spend i s)) = length (heap s)"
  by (simp_all add: spend_def)

lemma spend_nth:
  "i < length (heap s) \<Longrightarrow>
     heap (spend i s) ! i = (heap s ! i)\<lparr>time_spend := time_spend (heap s ! i) + 1\<rparr>"
  by (simp add: spend_def)

lemma spend_heap:
  "heap (spend i s) = (heap s)[i := (heap s ! i)\<lparr>time_spend := time_spend (heap s ! i) + 1\<rparr>]"
  by (simp add: spend_def)

lemma advance_frame:
  assumes "advance i s = Inr s'"
  shows "robots s' = robots s \<and> times_taken s' = times_taken s \<and>
         (\<exists>r'. heap s' = (heap s)[i := r'])"
  using assms
  by (auto simp: advance_def Let_def
      split: list.splits if_splits robot_state.splits option.splits sum.splits platform_state.splits)

lemma advance_decreases:
  assumes "advance i s = Inr s'" and "i < length (heap s)"
  shows "(heap s' ! i, heap s ! i) \<in> robot_less"
  using assms
  by (auto simp: advance_def Let_def robot_less_iff
      split: list.splits if_splits robot_state.splits option.splits sum.splits platform_state.splits)


lemma body_decreases:
  assumes "advance i (spend i s) = Inr s'" and "i < length (heap s)"
  shows "robots s' = robots s \<and> times_taken s' = times_taken s \<and>
         length (heap s') = length (heap s) \<and>
         (\<forall>k. k \<noteq> i \<longrightarrow> heap s' ! k = heap s ! k) \<and>
         (heap s' ! i, heap s ! i) \<in> robot_less"
proof -
  from advance_frame [OF assms(1)] obtain r' where
    fr: "robots s' = robots s" "times_taken s' = times_taken s"
      "heap s' = (heap (spend i s))[i := r']"
    by (auto simp: spend_simps)
  have "(heap s' ! i, heap (spend i s) ! i) \<in> robot_less"
    using advance_decreases [OF assms(1)] assms(2) by (simp add: spend_simps)
  then have "(heap s' ! i, heap s ! i) \<in> robot_less"
    using assms(2) by (simp add: spend_nth robot_less_iff)
  moreover have "\<forall>k. k \<noteq> i \<longrightarrow> heap s' ! k = heap s ! k"
    using fr(3) by (simp add: spend_heap)
  moreover have "length (heap s') = length (heap s)"
    using fr(3) by (simp add: spend_heap)
  ultimately show ?thesis using fr(1,2) by simp
qed

lemma pass_decreases:
  assumes "pass js flag s = Inr (flag', s')" and "\<forall>i\<in>set js. i < length (heap s)"
  shows "robots s' = robots s \<and> times_taken s' = times_taken s \<and>
         length (heap s') = length (heap s) \<and>
         (\<forall>k. below (heap s' ! k) (heap s ! k)) \<and>
         (\<forall>k. k \<notin> set js \<longrightarrow> heap s' ! k = heap s ! k) \<and>
         (flag' \<longrightarrow> flag \<or> (\<exists>k<length (heap s). (heap s' ! k, heap s ! k) \<in> robot_less))"
  using assms
proof (induction js arbitrary: flag s)
  case Nil
  then show ?case by (simp add: below_def)
next
  case (Cons i js)
  show ?case
  proof (cases "path (heap s ! i) = []")
    case True
    with Cons.prems have "pass js flag s = Inr (flag', s')" by simp
    from Cons.IH [OF this] Cons.prems(2) show ?thesis by simp
  next
    case False
    with Cons.prems(1) obtain s1 where
      s1: "advance i (spend i s) = Inr s1" and rest: "pass js True s1 = Inr (flag', s')"
      by (auto split: sum.splits)
    from Cons.prems(2) have i: "i < length (heap s)" by simp
    note b = body_decreases [OF s1 i]
    from b Cons.prems(2) have "\<forall>j\<in>set js. j < length (heap s1)" by simp
    note ih = Cons.IH [OF rest this]
    have strict: "(heap s' ! i, heap s ! i) \<in> robot_less"
      using ih b robot_less_trans unfolding below_def by metis
    have "below (heap s' ! k) (heap s ! k)" for k
    proof (cases "k = i")
      case True
      with strict show ?thesis by (simp add: below_def)
    next
      case False
      with b have "heap s1 ! k = heap s ! k" by simp
      with ih show ?thesis by metis
    qed
    moreover have "k \<notin> set (i # js) \<Longrightarrow> heap s' ! k = heap s ! k" for k
      using ih b by simp
    ultimately show ?thesis using ih b strict i by auto
  qed
qed

lemma list_all2_below:
  assumes "length xs = length ys" and "\<forall>k. below (xs ! k) (ys ! k)"
  shows "list_all2 (\<lambda>x y. x = y \<or> (x, y) \<in> robot_less) xs ys"
  using assms by (simp add: list_all2_conv_all_nth below_def)

lemma set_tick_order: "set (tick_order s) = set (robots s)"
  by (simp add: tick_order_def)

lemma tick_decreases:
  assumes "tick s = Inr (flag, s')" and "refs_ok s"
  shows "robots s' = robots s \<and> times_taken s' = times_taken s + 1 \<and>
         length (heap s') = length (heap s) \<and> refs_ok s' \<and>
         (\<forall>k. k \<notin> set (robots s) \<longrightarrow> heap s' ! k = heap s ! k) \<and>
         (flag \<longrightarrow> (s', s) \<in> sched_less)"
proof -
  let ?s1 = "s\<lparr>times_taken := times_taken s + 1\<rparr>"
  from assms(1) have p: "pass (tick_order ?s1) False ?s1 = Inr (flag, s')"
    by (simp add: tick_def Let_def)
  have refs: "\<forall>i\<in>set (tick_order ?s1). i < length (heap ?s1)"
    using assms(2) by (simp add: set_tick_order refs_ok_def list_all_iff)
  note d = pass_decreases [OF p refs]
  have "flag \<Longrightarrow> (s', s) \<in> sched_less"
  proof -
    assume flag
    with d obtain k where "(heap s' ! k, heap s ! k) \<in> robot_less" by auto
    then have "heap s' \<noteq> heap s" using robot_less_irrefl by metis
    moreover have "list_all2 (\<lambda>x y. x = y \<or> (x, y) \<in> robot_less) (heap s') (heap s)"
      using d by (intro list_all2_below) simp_all
    ultimately show ?thesis
      unfolding sched_less_def by (simp add: lex_pointwise)
  qed
  moreover have "refs_ok s'"
    using d assms(2) by (simp add: refs_ok_def)
  ultimately show ?thesis using d by (simp add: set_tick_order)
qed

lemma run_returns:
  assumes "refs_ok s"
  shows "\<exists>res. run s = Some res"
  using wf_sched_less assms
proof (induction s rule: wf_induct_rule)
  case (less s)
  show ?case
  proof (cases "tick s")
    case (Inl e)
    then show ?thesis by (subst run.simps) simp
  next
    case (Inr fs)
    obtain flag s' where fs: "fs = (flag, s')" by (cases fs)
    show ?thesis
    proof (cases flag)
      case True
      from tick_decreases [OF Inr [unfolded fs] less.prems] True
      have "(s', s) \<in> sched_less" "refs_ok s'" by simp_all
      from less.IH [OF this] obtain res where "run s' = Some res" ..
      with Inr fs True show ?thesis by (subst run.simps) simp
    next
      case False
      with Inr fs show ?thesis by (subst run.simps) simp
    qed
  qed
qed

section \<open>Construction and the iterations of the loop\<close>

lemma pick_four:
  "pick rs [0, 2, 1, 3] = (if length rs < 4 then Inl IndexError else Inr [0, 2, 1, 3])"
  by auto

lemma init_robot_frame:
  assumes "init_robot i s = Inr s'"
  shows "robots s' = robots s \<and> times_taken s' = times_taken s \<and>
         length (heap s') = length (heap s) \<and> (\<forall>k. k \<noteq> i \<longrightarrow> heap s' ! k = heap s ! k)"
  using assms
  by (auto simp: init_robot_def Let_def split: list.splits option.splits sum.splits)

lemma init_loop_frame:
  assumes "init_loop js s = Inr s'"
  shows "robots s' = robots s \<and> times_taken s' = times_taken s \<and>
         length (heap s') = length (heap s) \<and> (\<forall>k. k \<notin> set js \<longrightarrow> heap s' ! k = heap s ! k)"
  using assms
proof (induction js arbitrary: s)
  case Nil
  then show ?case by simp
next
  case (Cons i js)
  then obtain s1 where s1: "init_robot i s = Inr s1" and rest: "init_loop js s1 = Inr s'"
    by (auto split: sum.splits)
  from init_robot_frame [OF s1] Cons.IH [OF rest] show ?case by simp
qed

lemma init_unfold:
  "RobotScheduler_init rs pm =
     (if length rs < 4 then Inl IndexError
      else init_loop [0, 2, 1, 3]
             \<lparr>heap = rs, robots = [0, 2, 1, 3], platform_map = pm, times_taken = 0\<rparr>)"
  unfolding RobotScheduler_init_def pick_four by (simp del: init_loop.simps)

lemma init_result:
  assumes "RobotScheduler_init rs pm = Inr s"
  shows "4 \<le> length rs \<and> robots s = [0, 2, 1, 3] \<and> length (heap s) = length rs \<and>
         times_taken s = 0 \<and> drop 4 (heap s) = drop 4 rs \<and> refs_ok s"
proof -
  from assms have len: "4 \<le> length rs"
    by (simp add: init_unfold del: init_loop.simps split: if_splits)
  with assms have
    "init_loop [0, 2, 1, 3] \<lparr>heap = rs, robots = [0, 2, 1, 3], platform_map = pm, times_taken = 0\<rparr> = Inr s"
    by (simp add: init_unfold del: init_loop.simps)
  from init_loop_frame [OF this] have
    fr: "robots s = [0, 2, 1, 3]" "times_taken s = 0" "length (heap s) = length rs"
      "\<forall>k. k \<notin> {0, 2, 1, 3} \<longrightarrow> heap s ! k = rs ! k"
    by simp_all
  have "drop 4 (heap s) = drop 4 rs"
    using fr(3,4) by (intro nth_equalityI) simp_all
  moreover have "refs_ok s"
    using fr(1,3) len by (auto simp: refs_ok_def)
  ultimately show ?thesis using len fr by simp
qed

lemma ticks_frame:
  assumes "ticks n s = Inr (flag, s')" and "refs_ok s"
  shows "robots s' = robots s \<and> length (heap s') = length (heap s) \<and> refs_ok s' \<and>
         (\<forall>k. k \<notin> set (robots s) \<longrightarrow> heap s' ! k = heap s ! k)"
  using assms
proof (induction n arbitrary: s)
  case 0
  then show ?case by simp
next
  case (Suc n)
  from Suc.prems(1) obtain f1 s1 where t: "tick s = Inr (f1, s1)"
    by (auto split: sum.splits)
  note d = tick_decreases [OF t Suc.prems(2)]
  show ?case
  proof (cases f1)
    case True
    with Suc.prems(1) t have "ticks n s1 = Inr (flag, s')" by simp
    from Suc.IH [OF this] d show ?thesis by simp
  next
    case False
    with Suc.prems(1) t have "s' = s1" by simp
    with d show ?thesis by simp
  qed
qed

lemma pass_flag_mono: "pass js flag s = Inr (flag', s') \<Longrightarrow> flag \<Longrightarrow> flag'"
  by (induction js arbitrary: flag s) (auto split: if_splits sum.splits)

lemma pass_idle:
  "list_all (\<lambda>i. path (heap s ! i) = []) js \<Longrightarrow> pass js flag s = Inr (flag, s)"
  by (induction js) simp_all

lemma pass_active:
  "\<not> list_all (\<lambda>i. path (heap s ! i) = []) js \<Longrightarrow> pass js flag s = Inr (flag', s') \<Longrightarrow> flag'"
proof (induction js arbitrary: flag s)
  case Nil
  then show ?case by simp
next
  case (Cons i js)
  then show ?case
    by (auto split: if_splits sum.splits dest: pass_flag_mono)
qed

lemma tick_idle:
  assumes "list_all (\<lambda>i. path (heap s ! i) = []) (robots s)"
  shows "tick s = Inr (False, s\<lparr>times_taken := times_taken s + 1\<rparr>)"
proof -
  let ?s1 = "s\<lparr>times_taken := times_taken s + 1\<rparr>"
  from assms have "list_all (\<lambda>i. path (heap ?s1 ! i) = []) (tick_order ?s1)"
    by (simp add: list_all_iff set_tick_order)
  from pass_idle [OF this] show ?thesis by (simp add: tick_def Let_def)
qed

lemma tick_active:
  assumes "\<not> list_all (\<lambda>i. path (heap s ! i) = []) (robots s)" and "tick s = Inr (flag, s')"
  shows flag
proof -
  let ?s1 = "s\<lparr>times_taken := times_taken s + 1\<rparr>"
  from assms(1) have "\<not> list_all (\<lambda>i. path (heap ?s1 ! i) = []) (tick_order ?s1)"
    by (simp add: list_all_iff set_tick_order)
  moreover from assms(2) have "pass (tick_order ?s1) False ?s1 = Inr (flag, s')"
    by (simp add: tick_def Let_def)
  ultimately show ?thesis by (rule pass_active)
qed

lemma pass_frame:
  assumes "pass js flag s = Inr (flag', s')"
  shows "robots s' = robots s \<and> times_taken s' = times_taken s \<and>
         length (heap s') = length (heap s)"
  using assms
proof (induction js arbitrary: flag s)
  case Nil
  then show ?case by simp
next
  case (Cons i js)
  show ?case
  proof (cases "path (heap s ! i) = []")
    case True
    with Cons show ?thesis by simp
  next
    case False
    with Cons.prems obtain s1 where
      s1: "advance i (spend i s) = Inr s1" and rest: "pass js True s1 = Inr (flag', s')"
      by (auto split: sum.splits)
    from advance_frame [OF s1] have
      "robots s1 = robots s \<and> times_taken s1 = times_taken s \<and>
       length (heap s1) = length (heap s)"
      by (auto simp: spend_simps)
    with Cons.IH [OF rest] show ?thesis by simp
  qed
qed

lemma tick_times:
  assumes "tick s = Inr (flag, s')"
  shows "robots s' = robots s \<and> times_taken s' = times_taken s + 1 \<and>
         length (heap s') = length (heap s)"
  using pass_frame [of "tick_order (s\<lparr>times_taken := times_taken s + 1\<rparr>)" False
      "s\<lparr>times_taken := times_taken s + 1\<rparr>" flag s'] assms
  by (simp add: tick_def Let_def)

lemma run_ticks:
  assumes "run s = Some res"
  shows "(\<forall>s'. res = Inr s' \<longrightarrow>
            list_all (\<lambda>i. path (heap s' ! i) = []) (robots s') \<and>
            (\<exists>n. ticks (Suc n) s = Inr (False, s') \<and> times_taken s' = times_taken s + 1 + int n)) \<and>
         (\<forall>e. res = Inl e \<longrightarrow> (\<exists>n. ticks (Suc n) s = Inl e))"
  using assms
proof (induction rule: run.raw_induct [rotated, consumes 1])
  case (1 run s res)
  show ?case
  proof (cases "tick s")
    case (Inl e)
    with 1(2) have "res = Inl e" by simp
    moreover from Inl have "ticks (Suc 0) s = Inl e" by simp
    ultimately show ?thesis by blast
  next
    case (Inr fs)
    obtain flag s1 where fs: "fs = (flag, s1)" by (cases fs)
    have tm: "times_taken s1 = times_taken s + 1"
      using Inr fs tick_times by blast
    show ?thesis
    proof (cases flag)
      case True
      with 1(2) Inr fs have "run s1 = Some res" by simp
      note ih = 1(1) [OF this]
      have "\<exists>n. ticks (Suc n) s = Inr (False, s') \<and> times_taken s' = times_taken s + 1 + int n"
        if "res = Inr s'" for s'
      proof -
        from ih that obtain n where
          "ticks (Suc n) s1 = Inr (False, s')" "times_taken s' = times_taken s1 + 1 + int n"
          by blast
        with Inr fs True tm have
          "ticks (Suc (Suc n)) s = Inr (False, s') \<and> times_taken s' = times_taken s + 1 + int (Suc n)"
          by simp
        then show ?thesis by blast
      qed
      moreover have "\<exists>n. ticks (Suc n) s = Inl e" if "res = Inl e" for e
      proof -
        from ih that obtain n where "ticks (Suc n) s1 = Inl e" by blast
        with Inr fs True have "ticks (Suc (Suc n)) s = Inl e" by simp
        then show ?thesis by blast
      qed
      ultimately show ?thesis using ih by blast
    next
      case False
      with 1(2) Inr fs have res: "res = Inr s1" by simp
      from False Inr fs have idle: "list_all (\<lambda>i. path (heap s ! i) = []) (robots s)"
        using tick_active by blast
      from tick_idle [OF this] Inr fs have s1: "s1 = s\<lparr>times_taken := times_taken s + 1\<rparr>"
        by simp
      from Inr fs False have "ticks (Suc 0) s = Inr (False, s1)" by simp
      with res s1 idle show ?thesis by auto
    qed
  qed
qed

section \<open>Termination of the loop\<close>

lemma simulate_returns: "\<exists>res. simulate rs pm = Some res"
proof (cases "RobotScheduler_init rs pm")
  case (Inl e)
  then show ?thesis by (simp add: simulate_def)
next
  case (Inr s)
  from init_result [OF Inr] have "refs_ok s" by simp
  from run_returns [OF this] Inr show ?thesis by (simp add: simulate_def)
qed

text \<open>
  Claim C5, as amended.  \<open>run\<close> returns, with a final state or with an exception,
  from every state whose references are robot objects, and so does construction
  followed by \<open>run\<close> from every input.  The loop ends with the first pass that finds
  every path empty: from such a state \<open>run\<close> returns after one pass that changes the
  counter only; from any other state a pass that raises nothing sets the flag, and
  the loop goes on from the state it leaves.  The counter is incremented and the flag
  is reset before the robots of a pass are evaluated, so that on return every path
  is empty and the counter has grown by the number of passes, the last one, which
  evaluates no robot, included.  The bound of the claim on the number of ticks is
  not part of the amended claim: \<open>tick_bound_counterexample\<close> refutes it.
\<close>

theorem run_halts:
  "(\<exists>res. simulate rs pm = Some res) \<and>
   (refs_ok s \<longrightarrow> (\<exists>res. run s = Some res)) \<and>
   tick s = pass (tick_order s) False (s\<lparr>times_taken := times_taken s + 1\<rparr>) \<and>
   (list_all (\<lambda>i. path (heap s ! i) = []) (robots s) \<longrightarrow>
      run s = Some (Inr (s\<lparr>times_taken := times_taken s + 1\<rparr>))) \<and>
   (\<not> list_all (\<lambda>i. path (heap s ! i) = []) (robots s) \<longrightarrow>
      (\<forall>flag s'. tick s = Inr (flag, s') \<longrightarrow>
         flag \<and> times_taken s' = times_taken s + 1 \<and> run s = run s')) \<and>
   (\<forall>e. tick s = Inl e \<longrightarrow> run s = Some (Inl e)) \<and>
   (\<forall>s'. run s = Some (Inr s') \<longrightarrow>
      list_all (\<lambda>i. path (heap s' ! i) = []) (robots s') \<and>
      (\<exists>n. ticks (Suc n) s = Inr (False, s') \<and> times_taken s' = times_taken s + 1 + int n))"
proof -
  have idle: "run s = Some (Inr (s\<lparr>times_taken := times_taken s + 1\<rparr>))"
    if "list_all (\<lambda>i. path (heap s ! i) = []) (robots s)"
    using tick_idle [OF that] by (subst run.simps) simp
  have active: "flag \<and> times_taken s' = times_taken s + 1 \<and> run s = run s'"
    if "\<not> list_all (\<lambda>i. path (heap s ! i) = []) (robots s)" and "tick s = Inr (flag, s')"
    for flag s'
  proof -
    from tick_active [OF that] have flag .
    moreover from tick_times [OF that(2)] have "times_taken s' = times_taken s + 1" by simp
    moreover from that(2) \<open>flag\<close> have "run s = run s'" by (subst run.simps) simp
    ultimately show ?thesis by simp
  qed
  have err: "run s = Some (Inl e)" if "tick s = Inl e" for e
    using that by (subst run.simps) simp
  have fin: "list_all (\<lambda>i. path (heap s' ! i) = []) (robots s') \<and>
      (\<exists>n. ticks (Suc n) s = Inr (False, s') \<and> times_taken s' = times_taken s + 1 + int n)"
    if "run s = Some (Inr s')" for s'
    using run_ticks [OF that] by simp
  have first: "tick s = pass (tick_order s) False (s\<lparr>times_taken := times_taken s + 1\<rparr>)"
    by (simp add: tick_def Let_def tick_order_def)
  from simulate_returns run_returns first idle active err fin show ?thesis by blast
qed

theorem run_halts_witness:
  "refs_ok handover_state \<and>
   \<not> list_all (\<lambda>i. path (heap handover_state ! i) = []) (robots handover_state) \<and>
   tick handover_state = Inr (True, handover_next) \<and>
   times_taken handover_next = times_taken handover_state + 1 \<and>
   run handover_state = run handover_next \<and>
   (\<exists>res. run handover_state = Some res) \<and>
   list_all (\<lambda>i. path (heap idle_state ! i) = []) (robots idle_state) \<and>
   run idle_state = Some (Inr (idle_state\<lparr>times_taken := 31\<rparr>)) \<and>
   (\<exists>res. simulate solo_robots solo_platforms = Some res)"
proof -
  have a: "refs_ok handover_state"
    by (simp add: refs_ok_def handover_state_def)
  have b: "\<not> list_all (\<lambda>i. path (heap handover_state ! i) = []) (robots handover_state)"
    by (simp add: handover_state_def)
  have c: "list_all (\<lambda>i. path (heap idle_state ! i) = []) (robots idle_state)"
    by (simp add: idle_state_def handover_state_def)
  have d: "times_taken idle_state = 30"
    by (simp add: idle_state_def handover_state_def)
  note h = run_halts [of solo_robots solo_platforms handover_state]
  note i = run_halts [of solo_robots solo_platforms idle_state]
  from h a have "\<exists>res. run handover_state = Some res" by blast
  moreover from h b handover_tick have
    "times_taken handover_next = times_taken handover_state + 1 \<and>
     run handover_state = run handover_next"
    by blast
  moreover from i c d have "run idle_state = Some (Inr (idle_state\<lparr>times_taken := 31\<rparr>))"
    by simp
  moreover from h have "\<exists>res. simulate solo_robots solo_platforms = Some res" by blast
  ultimately show ?thesis using a b c handover_tick by simp
qed

text \<open>
  The claim's bound fails: with \<open>long_robots\<close> the loop makes 497 passes (496 of them
  evaluate a robot), while the paths have nine entries in all and no service
  duration or velocity exceeds 45, so that the bound is 405.
\<close>

theorem tick_bound_counterexample:
  "map_option (map_sum id times_taken) (simulate long_robots long_platforms) = Some (Inr 497) \<and>
   spec_tick_bound long_robots = 405 \<and>
   map_option (map_sum id (\<lambda>s. times_taken s \<le> spec_tick_bound long_robots))
     (simulate long_robots long_platforms) = Some (Inr False)"
  by code_simp

section \<open>The constructor reads four robots\<close>

lemma init_robot_initialises:
  assumes "init_robot i s = Inr s'" and "i < length (heap s)"
  shows "initialised (heap s ! i) (heap s' ! i) (platform_map s')"
  using assms
  by (auto simp: init_robot_def initialised_def Let_def update_conv'
      split: list.splits option.splits sum.splits)

lemma init_robot_platforms:
  assumes "init_robot j s = Inr s'" and "map_of (platform_map s) q = Some pl"
  shows "\<exists>pl'. map_of (platform_map s') q = Some pl' \<and> node_type pl' = node_type pl \<and>
           (p_state pl = Busy \<longrightarrow> p_state pl' = Busy) \<and>
           set (cur_visitor pl) \<subseteq> set (cur_visitor pl') \<and>
           set (visitor pl) \<subseteq> set (visitor pl')"
proof -
  from assms(1) obtain p pl0 d where
    upd: "map_of (platform_map s') =
      (map_of (platform_map s))(p \<mapsto> pl0\<lparr>p_state := Busy, p_time_left := d,
         cur_visitor := cur_visitor pl0 @ [robot_id (heap s ! j)],
         visitor := visitor pl0 @ [robot_id (heap s ! j)]\<rparr>)"
    and pl0: "map_of (platform_map s) p = Some pl0"
    by (auto simp: init_robot_def Let_def update_conv'
        split: list.splits option.splits sum.splits)
  show ?thesis
  proof (cases "q = p")
    case True
    with assms(2) pl0 have "pl0 = pl" by simp
    with True upd show ?thesis by auto
  next
    case False
    with upd assms(2) show ?thesis by simp
  qed
qed

lemma init_robot_keeps:
  assumes "init_robot j s = Inr s'" and "i \<noteq> j"
    and "initialised r0 (heap s ! i) (platform_map s)"
  shows "initialised r0 (heap s' ! i) (platform_map s')"
proof -
  from assms(3) obtain p ps pl d where
    r0: "path r0 = p # ps" "map_of (platform_map s) p = Some pl"
      "action (kind r0) (node_type pl) = Inr d"
      "heap s ! i = r0\<lparr>state := Working, time_left := d\<rparr>" "p_state pl = Busy"
      "robot_id r0 \<in> set (cur_visitor pl)" "robot_id r0 \<in> set (visitor pl)"
    by (auto simp: initialised_def split: list.splits option.splits sum.splits)
  from init_robot_platforms [OF assms(1) r0(2)] obtain pl' where
    pl': "map_of (platform_map s') p = Some pl'" "node_type pl' = node_type pl"
      "p_state pl' = Busy" "set (cur_visitor pl) \<subseteq> set (cur_visitor pl')"
      "set (visitor pl) \<subseteq> set (visitor pl')"
    using r0(5) by blast
  from init_robot_frame [OF assms(1)] assms(2) have "heap s' ! i = heap s ! i" by simp
  with r0 pl' show ?thesis
    by (auto simp: initialised_def)
qed

lemma init_loop_initialises:
  assumes "init_loop js s = Inr s'" and "distinct js" and "\<forall>j\<in>set js. j < length (heap s)"
  shows "(\<forall>i\<in>set js. initialised (heap s ! i) (heap s' ! i) (platform_map s')) \<and>
         (\<forall>i r0. i \<notin> set js \<longrightarrow> initialised r0 (heap s ! i) (platform_map s) \<longrightarrow>
            initialised r0 (heap s' ! i) (platform_map s'))"
  using assms
proof (induction js arbitrary: s)
  case Nil
  then show ?case by simp
next
  case (Cons j js)
  from Cons.prems(1) obtain s1 where s1: "init_robot j s = Inr s1"
    and rest: "init_loop js s1 = Inr s'"
    by (auto split: sum.splits)
  note fr = init_robot_frame [OF s1]
  from Cons.prems have dj: "distinct js" "j \<notin> set js" "j < length (heap s)"
    and refs: "\<forall>k\<in>set js. k < length (heap s1)"
    using fr by simp_all
  note ih = Cons.IH [OF rest dj(1) refs]
  have own: "initialised (heap s ! j) (heap s' ! j) (platform_map s')"
    using init_robot_initialises [OF s1 dj(3)] ih dj(2) by blast
  have others: "initialised (heap s ! i) (heap s' ! i) (platform_map s')" if "i \<in> set js" for i
  proof -
    from that dj(2) have "i \<noteq> j" by auto
    with fr have "heap s1 ! i = heap s ! i" by simp
    with ih that show ?thesis by auto
  qed
  have kept: "initialised r0 (heap s' ! i) (platform_map s')"
    if "i \<notin> set (j # js)" and "initialised r0 (heap s ! i) (platform_map s)" for i r0
  proof -
    from that(1) have "i \<noteq> j" "i \<notin> set js" by simp_all
    from init_robot_keeps [OF s1 this(1) that(2)] ih \<open>i \<notin> set js\<close> show ?thesis by blast
  qed
  from own others kept show ?case by auto
qed

lemma advance_time_spend:
  assumes "advance i s = Inr s'" and "i < length (heap s)"
  shows "time_spend (heap s' ! i) = time_spend (heap s ! i)"
  using assms
  by (auto simp: advance_def Let_def
      split: list.splits if_splits robot_state.splits option.splits sum.splits platform_state.splits)

lemma pass_time_spend:
  assumes "pass js flag s = Inr (flag', s')" and "distinct js"
    and "\<forall>i\<in>set js. i < length (heap s)"
  shows "\<forall>i\<in>set js. time_spend (heap s' ! i) =
           time_spend (heap s ! i) + (if path (heap s ! i) = [] then 0 else 1) \<and>
           (path (heap s ! i) \<noteq> [] \<longrightarrow> (heap s' ! i, heap s ! i) \<in> robot_less)"
  using assms
proof (induction js arbitrary: flag s)
  case Nil
  then show ?case by simp
next
  case (Cons j js)
  from Cons.prems have dj: "distinct js" "j \<notin> set js" "j < length (heap s)" by simp_all
  show ?case
  proof (cases "path (heap s ! j) = []")
    case True
    with Cons.prems(1) have rest: "pass js flag s = Inr (flag', s')" by simp
    from Cons.prems(3) have refs: "\<forall>i\<in>set js. i < length (heap s)" by simp
    note ih = Cons.IH [OF rest dj(1) refs]
    from pass_decreases [OF rest refs] dj(2) have "heap s' ! j = heap s ! j" by blast
    with True ih show ?thesis by simp
  next
    case False
    with Cons.prems(1) obtain s1 where
      s1: "advance j (spend j s) = Inr s1" and rest: "pass js True s1 = Inr (flag', s')"
      by (auto split: sum.splits)
    note b = body_decreases [OF s1 dj(3)]
    from b Cons.prems(3) have refs: "\<forall>i\<in>set js. i < length (heap s1)" by simp
    note ih = Cons.IH [OF rest dj(1) refs]
    have "time_spend (heap s1 ! j) = time_spend (heap (spend j s) ! j)"
      using advance_time_spend [OF s1] dj(3) by (simp add: spend_simps)
    then have step: "time_spend (heap s1 ! j) = time_spend (heap s ! j) + 1"
      using dj(3) by (simp add: spend_nth)
    from pass_decreases [OF rest refs] dj(2) have "heap s' ! j = heap s1 ! j" by blast
    with step False b have own: "time_spend (heap s' ! j) =
        time_spend (heap s ! j) + (if path (heap s ! j) = [] then 0 else 1) \<and>
        (path (heap s ! j) \<noteq> [] \<longrightarrow> (heap s' ! j, heap s ! j) \<in> robot_less)"
      by simp
    have "time_spend (heap s' ! i) =
        time_spend (heap s ! i) + (if path (heap s ! i) = [] then 0 else 1) \<and>
        (path (heap s ! i) \<noteq> [] \<longrightarrow> (heap s' ! i, heap s ! i) \<in> robot_less)"
      if "i \<in> set js" for i
    proof -
      from that dj(2) have "i \<noteq> j" by auto
      with b have same: "heap s1 ! i = heap s ! i" by simp
      from ih that have "time_spend (heap s' ! i) =
          time_spend (heap s1 ! i) + (if path (heap s1 ! i) = [] then 0 else 1) \<and>
          (path (heap s1 ! i) \<noteq> [] \<longrightarrow> (heap s' ! i, heap s1 ! i) \<in> robot_less)"
        by blast
      with same show ?thesis by simp
    qed
    with own show ?thesis by simp
  qed
qed

lemma tick_time_spend:
  assumes "tick s = Inr (flag, s')" and "distinct (robots s)" and "refs_ok s"
  shows "\<forall>i\<in>set (robots s). time_spend (heap s' ! i) =
           time_spend (heap s ! i) + (if path (heap s ! i) = [] then 0 else 1) \<and>
           (path (heap s ! i) \<noteq> [] \<longrightarrow> (heap s' ! i, heap s ! i) \<in> robot_less)"
proof -
  let ?s1 = "s\<lparr>times_taken := times_taken s + 1\<rparr>"
  from assms(1) have p: "pass (tick_order ?s1) False ?s1 = Inr (flag, s')"
    by (simp add: tick_def Let_def)
  have d: "distinct (tick_order ?s1)"
    using assms(2) by (simp add: tick_order_def)
  have refs: "\<forall>i\<in>set (tick_order ?s1). i < length (heap ?s1)"
    using assms(3) by (simp add: set_tick_order refs_ok_def list_all_iff)
  from pass_time_spend [OF p d refs] show ?thesis by (simp add: set_tick_order)
qed

lemma ticks_time_spend:
  assumes "ticks n s = Inr (flag, s')" and "distinct (robots s)" and "refs_ok s"
  shows "\<forall>i\<in>set (robots s). time_spend (heap s ! i) \<le> time_spend (heap s' ! i)"
  using assms
proof (induction n arbitrary: s)
  case 0
  then show ?case by simp
next
  case (Suc n)
  from Suc.prems(1) obtain f1 s1 where t: "tick s = Inr (f1, s1)"
    by (auto split: sum.splits)
  note d = tick_decreases [OF t Suc.prems(3)]
  have up: "\<forall>i\<in>set (robots s). time_spend (heap s ! i) \<le> time_spend (heap s1 ! i)"
    using tick_time_spend [OF t Suc.prems(2,3)] by simp
  show ?case
  proof (cases f1)
    case True
    with Suc.prems(1) t have "ticks n s1 = Inr (flag, s')" by simp
    from Suc.IH [OF this] d Suc.prems(2) have
      "\<forall>i\<in>set (robots s). time_spend (heap s1 ! i) \<le> time_spend (heap s' ! i)"
      by simp
    with up show ?thesis by fastforce
  next
    case False
    with Suc.prems(1) t have "s' = s1" by simp
    with up show ?thesis by simp
  qed
qed


lemma initialised_fields:
  assumes "initialised r0 r pm"
  shows "path r0 \<noteq> [] \<and> path r = path r0 \<and> time_spend r = time_spend r0 \<and>
         state r = Working \<and> robot_id r = robot_id r0 \<and> kind r = kind r0 \<and>
         velocity r = velocity r0"
  using assms
  by (auto simp: initialised_def split: list.splits option.splits sum.splits)

lemma below_four: "i < 4 \<Longrightarrow> i \<in> set [0, 2, 1, 3::nat]"
  by auto

text \<open>
  Claim C10.  With fewer than four robots the list comprehension of line 128 raises
  IndexError, before the scheduler has any attribute and before any robot or
  platform is touched; with four or more it yields the references to the first,
  third, second and fourth robot, and the constructor initialises these four in
  that order.  After a successful construction each of the first four robots is
  what it was, set to Working with the service duration of its first platform, and
  that platform is Busy with the robot in its queue and in its log.  After any
  number of iterations of the loop \<open>self.robots\<close> is still that list of four
  references, and every further tick that raises nothing evaluates each of the four
  that has a path left: its \<open>time_spend\<close> grows by exactly one and the robot moves on
  (a robot with no path left keeps its \<open>time_spend\<close>).  The run returns, and when it
  returns a state each of the four has walked its path to the end and has spent
  time.  Every robot past the fourth is, after construction, after every tick and at
  the end of the run, exactly the object that was passed in: it is never initialised
  or evaluated, and its \<open>time_spend\<close> is what it was (0 for a robot of
  \<open>InputReader\<close>).
\<close>

theorem init_takes_first_four:
  "(length rs < 4 \<longrightarrow>
      pick rs [0, 2, 1, 3] = Inl IndexError \<and> RobotScheduler_init rs pm = Inl IndexError) \<and>
   (4 \<le> length rs \<longrightarrow>
      pick rs [0, 2, 1, 3] = Inr [0, 2, 1, 3] \<and>
      RobotScheduler_init rs pm =
        init_loop [0, 2, 1, 3]
          \<lparr>heap = rs, robots = [0, 2, 1, 3], platform_map = pm, times_taken = 0\<rparr>) \<and>
   (\<forall>s. RobotScheduler_init rs pm = Inr s \<longrightarrow>
      4 \<le> length rs \<and> robots s = [0, 2, 1, 3] \<and> length (heap s) = length rs \<and>
      times_taken s = 0 \<and>
      (\<forall>i<4. initialised (rs ! i) (heap s ! i) (platform_map s)) \<and>
      drop 4 (heap s) = drop 4 rs \<and>
      (\<forall>n flag s'. ticks n s = Inr (flag, s') \<longrightarrow>
         robots s' = [0, 2, 1, 3] \<and> drop 4 (heap s') = drop 4 rs \<and>
         (\<forall>i<4. time_spend (rs ! i) \<le> time_spend (heap s' ! i)) \<and>
         (\<forall>flag' s''. tick s' = Inr (flag', s'') \<longrightarrow>
            (\<forall>i<4. time_spend (heap s'' ! i) =
               time_spend (heap s' ! i) + (if path (heap s' ! i) = [] then 0 else 1) \<and>
               (path (heap s' ! i) \<noteq> [] \<longrightarrow> (heap s'' ! i, heap s' ! i) \<in> robot_less)) \<and>
            drop 4 (heap s'') = drop 4 rs))) \<and>
   (\<exists>res. simulate rs pm = Some res) \<and>
   (\<forall>s'. simulate rs pm = Some (Inr s') \<longrightarrow>
      robots s' = [0, 2, 1, 3] \<and> length (heap s') = length rs \<and>
      drop 4 (heap s') = drop 4 rs \<and>
      (\<forall>i<4. path (heap s' ! i) = [] \<and> time_spend (rs ! i) < time_spend (heap s' ! i)))"
proof -
  have short: "pick rs [0, 2, 1, 3] = Inl IndexError \<and> RobotScheduler_init rs pm = Inl IndexError"
    if "length rs < 4"
    using that unfolding init_unfold pick_four by simp
  have long: "pick rs [0, 2, 1, 3] = Inr [0, 2, 1, 3] \<and>
      RobotScheduler_init rs pm =
        init_loop [0, 2, 1, 3]
          \<lparr>heap = rs, robots = [0, 2, 1, 3], platform_map = pm, times_taken = 0\<rparr>"
    if "4 \<le> length rs"
    using that unfolding init_unfold pick_four by simp
  have made: "\<forall>i<4. initialised (rs ! i) (heap s ! i) (platform_map s)"
    if init: "RobotScheduler_init rs pm = Inr s" for s
  proof -
    from init_result [OF init] have len: "4 \<le> length rs" by simp
    with init long have
      loop: "init_loop [0, 2, 1, 3]
          \<lparr>heap = rs, robots = [0, 2, 1, 3], platform_map = pm, times_taken = 0\<rparr> = Inr s"
      by simp
    have d: "distinct [0, 2, 1, 3::nat]" by simp
    have refs: "\<forall>j\<in>set [0, 2, 1, 3].
        j < length (heap \<lparr>heap = rs, robots = [0, 2, 1, 3], platform_map = pm, times_taken = 0\<rparr>)"
      using len by auto
    from init_loop_initialises [OF loop d refs] have
      "\<forall>i\<in>set [0, 2, 1, 3]. initialised (rs ! i) (heap s ! i) (platform_map s)"
      by simp
    with below_four show ?thesis by blast
  qed
  have later: "robots s' = [0, 2, 1, 3] \<and> length (heap s') = length rs \<and> refs_ok s' \<and>
      drop 4 (heap s') = drop 4 rs \<and>
      (\<forall>i<4. time_spend (rs ! i) \<le> time_spend (heap s' ! i))"
    if init: "RobotScheduler_init rs pm = Inr s" and t: "ticks n s = Inr (flag, s')"
    for s n flag s'
  proof -
    note r = init_result [OF init]
    then have ok: "refs_ok s" and d: "distinct (robots s)" by simp_all
    note f = ticks_frame [OF t ok]
    have "drop 4 (heap s') = drop 4 (heap s)"
    proof (rule nth_equalityI)
      show "length (drop 4 (heap s')) = length (drop 4 (heap s))"
        using f by simp
    next
      fix i
      assume i: "i < length (drop 4 (heap s'))"
      have "4 + i \<notin> set (robots s)" using r by simp
      with f have "heap s' ! (4 + i) = heap s ! (4 + i)" by blast
      with i f show "drop 4 (heap s') ! i = drop 4 (heap s) ! i" by simp
    qed
    moreover have "time_spend (rs ! i) \<le> time_spend (heap s' ! i)" if "i < 4" for i
    proof -
      from below_four [OF that] r have "i \<in> set (robots s)" by simp
      with ticks_time_spend [OF t d ok] have
        "time_spend (heap s ! i) \<le> time_spend (heap s' ! i)"
        by blast
      with initialised_fields made [OF init] that show ?thesis by fastforce
    qed
    ultimately show ?thesis using f r by simp
  qed
  have step: "(\<forall>i<4. time_spend (heap s'' ! i) =
        time_spend (heap s' ! i) + (if path (heap s' ! i) = [] then 0 else 1) \<and>
        (path (heap s' ! i) \<noteq> [] \<longrightarrow> (heap s'' ! i, heap s' ! i) \<in> robot_less)) \<and>
      drop 4 (heap s'') = drop 4 rs"
    if init: "RobotScheduler_init rs pm = Inr s" and t: "ticks n s = Inr (flag, s')"
      and tk: "tick s' = Inr (flag', s'')"
    for s n flag s' flag' s''
  proof -
    note l = later [OF init t]
    then have d: "distinct (robots s')" and ok: "refs_ok s'" by simp_all
    have "time_spend (heap s'' ! i) =
        time_spend (heap s' ! i) + (if path (heap s' ! i) = [] then 0 else 1) \<and>
        (path (heap s' ! i) \<noteq> [] \<longrightarrow> (heap s'' ! i, heap s' ! i) \<in> robot_less)"
      if "i < 4" for i
    proof -
      from below_four [OF that] l have "i \<in> set (robots s')" by simp
      with tick_time_spend [OF tk d ok] show ?thesis by blast
    qed
    moreover have "drop 4 (heap s'') = drop 4 rs"
    proof -
      note fr = tick_decreases [OF tk ok]
      have "drop 4 (heap s'') = drop 4 (heap s')"
      proof (rule nth_equalityI)
        show "length (drop 4 (heap s'')) = length (drop 4 (heap s'))"
          using fr by simp
      next
        fix i
        assume i: "i < length (drop 4 (heap s''))"
        have "4 + i \<notin> set (robots s')" using l by simp
        with fr have "heap s'' ! (4 + i) = heap s' ! (4 + i)" by blast
        with i fr show "drop 4 (heap s'') ! i = drop 4 (heap s') ! i" by simp
      qed
      with l show ?thesis by simp
    qed
    ultimately show ?thesis by simp
  qed
  have fin: "robots s' = [0, 2, 1, 3] \<and> length (heap s') = length rs \<and>
      drop 4 (heap s') = drop 4 rs \<and>
      (\<forall>i<4. path (heap s' ! i) = [] \<and> time_spend (rs ! i) < time_spend (heap s' ! i))"
    if "simulate rs pm = Some (Inr s')" for s'
  proof -
    from that obtain s where init: "RobotScheduler_init rs pm = Inr s"
      and run: "run s = Some (Inr s')"
      by (auto simp: simulate_def split: sum.splits)
    from run_ticks [OF run] obtain n where
      empty: "list_all (\<lambda>i. path (heap s' ! i) = []) (robots s')"
      and t: "ticks (Suc n) s = Inr (False, s')"
      by blast
    note l = later [OF init t]
    from t obtain f1 s1 where tk: "tick s = Inr (f1, s1)"
      and rest: "if f1 then ticks n s1 = Inr (False, s') else s' = s1"
      by (auto split: sum.splits if_splits)
    have t0: "ticks 0 s = Inr (True, s)" by simp
    note first = step [OF init t0 tk]
    note l1 = later [OF init t0]
    have t1: "ticks (Suc 0) s = Inr (f1, s1)"
      using tk by simp
    note l2 = later [OF init t1]
    have "path (heap s' ! i) = [] \<and> time_spend (rs ! i) < time_spend (heap s' ! i)"
      if i: "i < 4" for i
    proof -
      from below_four [OF i] l have "i \<in> set (robots s')" by simp
      with empty have e: "path (heap s' ! i) = []" by (simp add: list_all_iff)
      from initialised_fields made [OF init] i have
        f: "path (heap s ! i) \<noteq> []" "time_spend (heap s ! i) = time_spend (rs ! i)"
        by fastforce+
      with first i have one: "time_spend (heap s1 ! i) = time_spend (rs ! i) + 1" by simp
      have "time_spend (heap s1 ! i) \<le> time_spend (heap s' ! i)"
      proof (cases f1)
        case True
        with rest have r: "ticks n s1 = Inr (False, s')" by simp
        from l2 below_four [OF i] have
          "distinct (robots s1)" "refs_ok s1" "i \<in> set (robots s1)"
          by simp_all
        with ticks_time_spend [OF r] show ?thesis by blast
      next
        case False
        with rest show ?thesis by simp
      qed
      with one e show ?thesis by simp
    qed
    with l show ?thesis by simp
  qed
  have built: "4 \<le> length rs \<and> robots s = [0, 2, 1, 3] \<and> length (heap s) = length rs \<and>
      times_taken s = 0 \<and> drop 4 (heap s) = drop 4 rs"
    if "RobotScheduler_init rs pm = Inr s" for s
    using init_result [OF that] by simp
  have running: "robots s' = [0, 2, 1, 3] \<and> drop 4 (heap s') = drop 4 rs \<and>
      (\<forall>i<4. time_spend (rs ! i) \<le> time_spend (heap s' ! i))"
    if "RobotScheduler_init rs pm = Inr s" and "ticks n s = Inr (flag, s')" for s n flag s'
    using later [OF that] by simp
  from short long built made running step fin simulate_returns [of rs pm]
  show ?thesis by blast
qed

lemma spare_run: "map_option isl (simulate spare_robots solo_platforms) = Some False"
  by code_simp

lemma spare_first_tick: "isl (simulate_ticks (Suc 0) spare_robots solo_platforms) = False"
  by code_simp

theorem init_takes_first_four_witness:
  "length spare_robots = 5 \<and>
   (\<exists>s. RobotScheduler_init spare_robots solo_platforms = Inr s \<and>
      robots s = [0, 2, 1, 3] \<and> state (heap s ! 0) = Working \<and>
      path (heap s ! 0) = [1] \<and> time_spend (heap s ! 0) = 0 \<and>
      heap s ! 4 = read_robot 5 Organizer 7 [1, 2] \<and>
      (\<exists>flag s1. tick s = Inr (flag, s1) \<and> time_spend (heap s1 ! 0) = 1 \<and>
         drop 4 (heap s1) = drop 4 spare_robots)) \<and>
   (\<exists>s'. simulate spare_robots solo_platforms = Some (Inr s') \<and>
      robots s' = [0, 2, 1, 3] \<and> length (heap s') = 5 \<and>
      path (heap s' ! 0) = [] \<and> 0 < time_spend (heap s' ! 0) \<and>
      heap s' ! 4 = read_robot 5 Organizer 7 [1, 2] \<and> time_spend (heap s' ! 4) = 0) \<and>
   length (take 3 spare_robots) = 3 \<and>
   RobotScheduler_init (take 3 spare_robots) solo_platforms = Inl IndexError"
proof -
  have len: "length spare_robots = 5" "length (take 3 spare_robots) = 3"
    by (simp_all add: spare_robots_def)
  have r0: "spare_robots ! 0 = read_robot 1 Mover 1 [1]"
    "drop 4 spare_robots = [read_robot 5 Organizer 7 [1, 2]]"
    by (simp_all add: spare_robots_def)
  note inst = init_takes_first_four [of spare_robots solo_platforms]
  from spare_first_tick obtain s where
    init: "RobotScheduler_init spare_robots solo_platforms = Inr s"
    and t1: "\<not> isl (ticks (Suc 0) s)"
    by (auto simp: simulate_ticks_def split: sum.splits)
  from t1 have "\<not> isl (tick s)"
    by (auto split: sum.splits)
  then obtain fs where "tick s = Inr fs"
    by (cases "tick s") auto
  then obtain flag s1 where tk: "tick s = Inr (flag, s1)"
    by (cases fs) auto
  have t0: "ticks 0 s = Inr (True, s)" by simp
  from inst init have
    a: "robots s = [0, 2, 1, 3]" "initialised (spare_robots ! 0) (heap s ! 0) (platform_map s)"
      "drop 4 (heap s) = drop 4 spare_robots" "length (heap s) = length spare_robots"
    by simp_all
  from initialised_fields [OF a(2)] r0 have
    b: "state (heap s ! 0) = Working" "path (heap s ! 0) = [1]" "time_spend (heap s ! 0) = 0"
    by (simp_all add: read_robot_def)
  from a(3) have "drop 4 (heap s) ! 0 = drop 4 spare_robots ! 0" by simp
  with a(4) len r0 have c: "heap s ! 4 = read_robot 5 Organizer 7 [1, 2]" by simp
  from inst init have
    "\<forall>n flag s'. ticks n s = Inr (flag, s') \<longrightarrow>
       (\<forall>flag' s''. tick s' = Inr (flag', s'') \<longrightarrow>
          (\<forall>i<4. time_spend (heap s'' ! i) =
             time_spend (heap s' ! i) + (if path (heap s' ! i) = [] then 0 else 1) \<and>
             (path (heap s' ! i) \<noteq> [] \<longrightarrow> (heap s'' ! i, heap s' ! i) \<in> robot_less)) \<and>
          drop 4 (heap s'') = drop 4 spare_robots)"
    by simp
  with t0 tk have
    "(\<forall>i<4. time_spend (heap s1 ! i) =
        time_spend (heap s ! i) + (if path (heap s ! i) = [] then 0 else 1) \<and>
        (path (heap s ! i) \<noteq> [] \<longrightarrow> (heap s1 ! i, heap s ! i) \<in> robot_less)) \<and>
     drop 4 (heap s1) = drop 4 spare_robots"
    by blast
  then have
    "time_spend (heap s1 ! 0) =
       time_spend (heap s ! 0) + (if path (heap s ! 0) = [] then 0 else 1)"
    "drop 4 (heap s1) = drop 4 spare_robots"
    by simp_all
  with b have d: "time_spend (heap s1 ! 0) = 1" "drop 4 (heap s1) = drop 4 spare_robots"
    by simp_all
  from spare_run obtain res where
    res: "simulate spare_robots solo_platforms = Some res" "\<not> isl res"
    by auto
  then obtain s' where run: "simulate spare_robots solo_platforms = Some (Inr s')"
    by (cases res) auto
  from inst run have
    r: "robots s' = [0, 2, 1, 3]" "length (heap s') = length spare_robots"
      "drop 4 (heap s') = drop 4 spare_robots"
      "path (heap s' ! 0) = []" "time_spend (spare_robots ! 0) < time_spend (heap s' ! 0)"
    by simp_all
  from r(3) have "drop 4 (heap s') ! 0 = drop 4 spare_robots ! 0" by simp
  with r(2) len r0 have last: "heap s' ! 4 = read_robot 5 Organizer 7 [1, 2]" by simp
  then have e: "time_spend (heap s' ! 4) = 0" by (simp add: read_robot_def)
  from r(5) r0 have g: "0 < time_spend (heap s' ! 0)" by (simp add: read_robot_def)
  from init_takes_first_four [of "take 3 spare_robots" solo_platforms] len have
    h: "RobotScheduler_init (take 3 spare_robots) solo_platforms = Inl IndexError"
    by simp
  from init a(1) b c tk d have first:
    "\<exists>s. RobotScheduler_init spare_robots solo_platforms = Inr s \<and>
      robots s = [0, 2, 1, 3] \<and> state (heap s ! 0) = Working \<and>
      path (heap s ! 0) = [1] \<and> time_spend (heap s ! 0) = 0 \<and>
      heap s ! 4 = read_robot 5 Organizer 7 [1, 2] \<and>
      (\<exists>flag s1. tick s = Inr (flag, s1) \<and> time_spend (heap s1 ! 0) = 1 \<and>
         drop 4 (heap s1) = drop 4 spare_robots)"
    by blast
  from run r len last e g have second:
    "\<exists>s'. simulate spare_robots solo_platforms = Some (Inr s') \<and>
      robots s' = [0, 2, 1, 3] \<and> length (heap s') = 5 \<and>
      path (heap s' ! 0) = [] \<and> 0 < time_spend (heap s' ! 0) \<and>
      heap s' ! 4 = read_robot 5 Organizer 7 [1, 2] \<and> time_spend (heap s' ! 4) = 0"
    by auto
  from len first second h show ?thesis by blast
qed

section \<open>The scenario of the specification\<close>

text \<open>
  Claim C6, as amended.  The constructor needs four robots, so the Organizer of the
  scenario (velocity 5, path from platform 1 of node type A to platform 2 of node
  type B, all queues empty) runs next to three Movers of velocity 1, each with one
  platform of node type A of its own.  Seen after each tick, the Organizer is Working
  at platform 1 after the ticks 1 to 30, Moving after the ticks 31 to 35 and Working
  at platform 2 after the ticks 36 to 80; tick 81 is its departure from platform 2,
  which empties its path and is counted in \<open>time_spend\<close> as well; pass 82 evaluates
  no robot and ends the loop.  The final \<open>time_spend\<close> is 81 and the counter is 82.
\<close>

theorem solo_organizer_run:
  "simulate_trace 0 100 solo_robots solo_platforms =
     (Working, [1, 2], 0) # map (\<lambda>k. (Working, [1, 2], k)) [1..30] @
     map (\<lambda>k. (Moving, [2], k)) [31..35] @ map (\<lambda>k. (Working, [2], k)) [36..80] @
     [(Moving, [], 81), (Moving, [], 81)] \<and>
   map_option (map_sum id (\<lambda>s. (time_spend (heap s ! 0), times_taken s)))
     (simulate solo_robots solo_platforms) = Some (Inr (81, 82))"
  by code_simp

text \<open>
  The claim as stated fails twice: a run with the one robot of the scenario ends in
  the constructor with IndexError, and next to three other robots the final
  \<open>time_spend\<close> of the Organizer is 81, not 80.
\<close>

theorem solo_run_counterexample:
  "simulate [read_robot 1 Organizer 5 [1, 2]] solo_platforms = Some (Inl IndexError) \<and>
   map_option (map_sum id (\<lambda>s. time_spend (heap s ! 0)))
     (simulate solo_robots solo_platforms) = Some (Inr 81) \<and>
   map_option (map_sum id (\<lambda>s. time_spend (heap s ! 0) = 80))
     (simulate solo_robots solo_platforms) = Some (Inr False)"
  by code_simp

section \<open>Robots without a path\<close>

text \<open>
  In a tick a robot with an empty path is skipped: neither its own evaluation nor
  that of any other robot changes it, and a pass over such robots only changes
  nothing at all (\<open>pass_idle\<close>).
\<close>

lemma init_robot_pathless: "path (heap s ! i) = [] \<Longrightarrow> init_robot i s = Inl IndexError"
  by (simp add: init_robot_def)

lemma pass_pathless:
  assumes "pass js flag s = Inr (flag', s')" and "path (heap s ! k) = []"
  shows "heap s' ! k = heap s ! k"
  using assms
proof (induction js arbitrary: flag s)
  case Nil
  then show ?case by simp
next
  case (Cons i js)
  show ?case
  proof (cases "path (heap s ! i) = []")
    case True
    with Cons show ?thesis by simp
  next
    case False
    with Cons.prems(2) have neq: "k \<noteq> i" by auto
    from False Cons.prems(1) obtain s1 where
      s1: "advance i (spend i s) = Inr s1" and rest: "pass js True s1 = Inr (flag', s')"
      by (auto split: sum.splits)
    from advance_frame [OF s1] obtain r' where "heap s1 = (heap (spend i s))[i := r']"
      by blast
    with neq have same: "heap s1 ! k = heap s ! k"
      by (simp add: spend_heap)
    with Cons.prems(2) have "path (heap s1 ! k) = []" by simp
    from Cons.IH [OF rest this] same show ?thesis by simp
  qed
qed

lemma tick_pathless:
  assumes "tick s = Inr (flag, s')" and "path (heap s ! k) = []"
  shows "heap s' ! k = heap s ! k"
  using pass_pathless [of "tick_order (s\<lparr>times_taken := times_taken s + 1\<rparr>)" False
      "s\<lparr>times_taken := times_taken s + 1\<rparr>" flag s' k] assms
  by (simp add: tick_def Let_def)

text \<open>
  Claim C7 fails in the constructor, which has no such guard: \<open>robot.path[0]\<close> of
  line 134 raises IndexError for a robot with an empty path.  Here the second of four
  robots has no path, and no scheduler is built.
\<close>

theorem init_pathless_robot:
  "path (pathless_robots ! 1) = [] \<and>
   RobotScheduler_init pathless_robots solo_platforms = Inl IndexError \<and>
   simulate pathless_robots solo_platforms = Some (Inl IndexError)"
  by code_simp

section \<open>The queues and the visitor logs\<close>

text \<open>
  The visitor log of every platform only grows: from construction on, the log at any
  moment is a prefix of the log at every later moment.
\<close>

lemma advance_visitor:
  assumes "advance i s = Inr s'" and "map_of (platform_map s) q = Some pl"
  shows "\<exists>pl'. map_of (platform_map s') q = Some pl' \<and> prefix (visitor pl) (visitor pl')"
  using assms
  by (auto simp: advance_def Let_def update_conv'
      split: list.splits if_splits robot_state.splits option.splits sum.splits platform_state.splits)

lemma pass_visitor:
  assumes "pass js flag s = Inr (flag', s')" and "map_of (platform_map s) q = Some pl"
  shows "\<exists>pl'. map_of (platform_map s') q = Some pl' \<and> prefix (visitor pl) (visitor pl')"
  using assms
proof (induction js arbitrary: flag s pl)
  case Nil
  then show ?case by simp
next
  case (Cons i js)
  show ?case
  proof (cases "path (heap s ! i) = []")
    case True
    with Cons show ?thesis by simp
  next
    case False
    with Cons.prems(1) obtain s1 where
      s1: "advance i (spend i s) = Inr s1" and rest: "pass js True s1 = Inr (flag', s')"
      by (auto split: sum.splits)
    from Cons.prems(2) have "map_of (platform_map (spend i s)) q = Some pl"
      by (simp add: spend_simps)
    from advance_visitor [OF s1 this] obtain pl1 where
      pl1: "map_of (platform_map s1) q = Some pl1" "prefix (visitor pl) (visitor pl1)"
      by blast
    from Cons.IH [OF rest pl1(1)] obtain pl' where
      "map_of (platform_map s') q = Some pl'" "prefix (visitor pl1) (visitor pl')"
      by blast
    with pl1(2) show ?thesis by (auto intro: prefix_order.trans)
  qed
qed

lemma tick_visitor:
  assumes "tick s = Inr (flag, s')" and "map_of (platform_map s) q = Some pl"
  shows "\<exists>pl'. map_of (platform_map s') q = Some pl' \<and> prefix (visitor pl) (visitor pl')"
  using pass_visitor [of "tick_order (s\<lparr>times_taken := times_taken s + 1\<rparr>)" False
      "s\<lparr>times_taken := times_taken s + 1\<rparr>" flag s' q pl] assms
  by (simp add: tick_def Let_def)

lemma ticks_visitor:
  assumes "ticks n s = Inr (flag, s')" and "map_of (platform_map s) q = Some pl"
  shows "\<exists>pl'. map_of (platform_map s') q = Some pl' \<and> prefix (visitor pl) (visitor pl')"
  using assms
proof (induction n arbitrary: s pl)
  case 0
  then show ?case by simp
next
  case (Suc n)
  from Suc.prems(1) obtain f1 s1 where t: "tick s = Inr (f1, s1)"
    by (auto split: sum.splits)
  from tick_visitor [OF t Suc.prems(2)] obtain pl1 where
    pl1: "map_of (platform_map s1) q = Some pl1" "prefix (visitor pl) (visitor pl1)"
    by blast
  show ?case
  proof (cases f1)
    case True
    with Suc.prems(1) t have "ticks n s1 = Inr (flag, s')" by simp
    from Suc.IH [OF this pl1(1)] pl1(2) show ?thesis
      by (auto intro: prefix_order.trans)
  next
    case False
    with Suc.prems(1) t have "s' = s1" by simp
    with pl1 show ?thesis by simp
  qed
qed

lemma init_robot_visitor:
  assumes "init_robot i s = Inr s'" and "map_of (platform_map s) q = Some pl"
  shows "\<exists>pl'. map_of (platform_map s') q = Some pl' \<and> prefix (visitor pl) (visitor pl')"
  using assms
  by (auto simp: init_robot_def Let_def update_conv' split: list.splits option.splits sum.splits)

text \<open>
  Claim C8 fails for the queues.  Robot 1 (an Organizer, 30 ticks on node type A)
  and robot 2 (a Mover, 20 ticks) both start on platform 1, where the constructor
  sets both to Working and queues \<open>[1, 2]\<close>.  Robot 2 is done first and its departure
  at tick 21 removes the front of the queue, the id of robot 1; its path leads back
  to platform 1, where it arrives at tick 22 and is queued again: the queue is
  \<open>[2, 2]\<close>, while robot 1 is still working there.
\<close>

theorem shared_start_queue:
  "map robot_id shared_robots = [1, 2, 3, 4] \<and>
   map_sum id (\<lambda>(flag, s). map_option cur_visitor (map_of (platform_map s) 1))
     (simulate_ticks 0 shared_robots solo_platforms) = Inr (Some [1, 2]) \<and>
   map_sum id (\<lambda>(flag, s). map_option cur_visitor (map_of (platform_map s) 1))
     (simulate_ticks 21 shared_robots solo_platforms) = Inr (Some [2]) \<and>
   map_sum id (\<lambda>(flag, s). (flag, observe 0 s, map_option cur_visitor (map_of (platform_map s) 1)))
     (simulate_ticks 22 shared_robots solo_platforms) =
     Inr (True, (Working, [1], 22), Some [2, 2])"
  by code_simp

end
